theory Spec2Isabelle
  imports Main
begin

section \<open>JavaScript strings and values\<close>

text \<open>
  Strings are character lists. The three string methods the script calls are
  \<^verbatim>\<open>startsWith\<close>, \<^verbatim>\<open>endsWith\<close> and \<^verbatim>\<open>includes\<close>; all patterns the
  script passes to them are ASCII.
\<close>

definition startsWith :: "string \<Rightarrow> string \<Rightarrow> bool" where
  "startsWith s t = (take (length t) s = t)"

definition endsWith :: "string \<Rightarrow> string \<Rightarrow> bool" where
  "endsWith s t = (length t \<le> length s \<and> drop (length s - length t) s = t)"

fun js_includes :: "string \<Rightarrow> string \<Rightarrow> bool" where
  "js_includes [] t = (t = [])"
| "js_includes (c # cs) t = (take (length t) (c # cs) = t \<or> js_includes cs t)"

text \<open>
  A property that may be \<^verbatim>\<open>undefined\<close> is a \<open>string option\<close>. In a condition,
  \<^verbatim>\<open>undefined\<close> and the empty string are falsy.
\<close>

fun truthy :: "string option \<Rightarrow> bool" where
  "truthy None = False"
| "truthy (Some s) = (s \<noteq> [])"

section \<open>The HTTP client\<close>

text \<open>
  What the script reads of an axios response: \<^verbatim>\<open>response.status\<close>,
  \<^verbatim>\<open>response.headers\<close>, \<^verbatim>\<open>response.data\<close>,
  \<^verbatim>\<open>response.request.res.responseUrl\<close> and \<^verbatim>\<open>response.config.url\<close>.
\<close>

record response =
  status :: nat
  headers :: "(string \<times> string) list"
  data :: string
  responseUrl :: "string option"
  config_url :: "string option"

text \<open>
  A thrown value. \<^verbatim>\<open>error.response\<close> is set when the server answered with a
  status the client rejects, and is \<^verbatim>\<open>undefined\<close> for network errors, timeouts
  and for a \<^verbatim>\<open>TypeError\<close>.
\<close>

datatype js_error = Error (err_response: "response option") (message: string)

definition TypeError :: js_error where
  "TypeError = Error None ''TypeError''"

record options =
  timeout :: nat
  maxRedirects :: "nat option"
  validateStatus :: "(nat \<Rightarrow> bool) option"

text \<open>
  The network is a parameter: \<open>net url opts k\<close> is the outcome of the \<open>k\<close>-th
  \<^verbatim>\<open>axios.get\<close> call (counted from 0) that one classification issues.
  The state \<open>io\<close> of a classification counts the requests issued so far, records
  the delays it has waited, in milliseconds, and keeps the requests and the waits in the
  order in which they happened (\<open>events\<close>). Console output is not modelled.
\<close>

type_synonym net = "string \<Rightarrow> options \<Rightarrow> nat \<Rightarrow> js_error + response"

datatype io_event = Requested nat | Waited nat

record io =
  requests :: nat
  sleeps :: "nat list"
  events :: "io_event list"

definition io0 :: io where
  "io0 = \<lparr>requests = 0, sleeps = [], events = []\<rparr>"

definition axios_get :: "net \<Rightarrow> string \<Rightarrow> options \<Rightarrow> io \<Rightarrow> (js_error + response) \<times> io" where
  "axios_get net url opts st =
     (net url opts (requests st),
      st\<lparr>requests := Suc (requests st), events := events st @ [Requested (requests st)]\<rparr>)"

definition wait :: "nat \<Rightarrow> io \<Rightarrow> io" where
  "wait ms st = st\<lparr>sleeps := sleeps st @ [ms], events := events st @ [Waited ms]\<rparr>"

subsection \<open>axiosRetry\<close>

text \<open>
  The \<^verbatim>\<open>for\<close> loop of \<^verbatim>\<open>axiosRetry\<close>, started at \<open>i\<close>. A loop that ends without
  returning makes the function return \<^verbatim>\<open>undefined\<close>, here \<open>Inr None\<close>.
\<close>

function axiosRetry_loop ::
  "net \<Rightarrow> string \<Rightarrow> options \<Rightarrow> nat \<Rightarrow> nat \<Rightarrow> nat \<Rightarrow> io \<Rightarrow> (js_error + response option) \<times> io" where
  "axiosRetry_loop net url opts retries backoff i st =
     (if i < retries then
        (case axios_get net url opts st of
           (Inr r, st1) \<Rightarrow> (Inr (Some r), st1)
         | (Inl e, st1) \<Rightarrow>
             if i < retries - 1
             then axiosRetry_loop net url opts retries backoff (i + 1) (wait (backoff * (i + 1)) st1)
             else (Inl e, st1))
      else (Inr None, st))"
  by pat_completeness auto
termination
  by (relation "measure (\<lambda>(net, url, opts, retries, backoff, i, st). retries - i)") auto

definition default_retries :: nat where
  "default_retries = 2"

definition default_backoff :: nat where
  "default_backoff = 3000"

definition axiosRetry ::
  "net \<Rightarrow> string \<Rightarrow> options \<Rightarrow> nat \<Rightarrow> nat \<Rightarrow> io \<Rightarrow> (js_error + response option) \<times> io" where
  "axiosRetry net url opts retries backoff st = axiosRetry_loop net url opts retries backoff 0 st"

section \<open>The three stages of a classification\<close>

text \<open>
  The HTML inspection is a parameter: \<open>ch html sel\<close> is
  \<^verbatim>\<open>cheerio.load(html)(sel).length\<close>, the number of elements of the document that
  match the selector.
\<close>

type_synonym cheerio = "string \<Rightarrow> string \<Rightarrow> nat"

definition timeout_only :: options where
  "timeout_only = \<lparr>timeout = 15000, maxRedirects = None, validateStatus = None\<rparr>"

text \<open>
  \<^verbatim>\<open>poweredByHeader && poweredByHeader.includes('Shopify')\<close> for the header
  \<^verbatim>\<open>powered-by\<close> of a response.
\<close>

definition poweredByShopify :: "response \<Rightarrow> bool" where
  "poweredByShopify r =
     (case map_of (headers r) ''powered-by'' of
        None \<Rightarrow> False
      | Some h \<Rightarrow> h \<noteq> [] \<and> js_includes h ''Shopify'')"

subsection \<open>Stage 1: isShopifyStore\<close>

record stage1 =
  s1_isShopify :: bool
  s1_isPasswordProtected :: bool

definition sel_meta :: string where
  "sel_meta = ''meta[name=\"shopify-checkout-api-token\"]''"

definition sel_script :: string where
  "sel_script = ''script[src*=\"shopify\"]''"

text \<open>The \<^verbatim>\<open>try\<close> block: \<open>Inl\<close> is a value thrown inside it.\<close>

definition isShopifyStore_try :: "net \<Rightarrow> cheerio \<Rightarrow> string \<Rightarrow> io \<Rightarrow> (js_error + stage1) \<times> io" where
  "isShopifyStore_try net ch url st =
     (case axiosRetry net url timeout_only default_retries default_backoff st of
        (Inl e, st1) \<Rightarrow> (Inl e, st1)
      | (Inr None, st1) \<Rightarrow> (Inl TypeError, st1)
      | (Inr (Some r), st1) \<Rightarrow>
          if js_includes url ''.myshopify.com'' \<or> js_includes url ''shopify.com''
          then (Inr \<lparr>s1_isShopify = True, s1_isPasswordProtected = False\<rparr>, st1)
          else if poweredByShopify r
          then (Inr \<lparr>s1_isShopify = True, s1_isPasswordProtected = False\<rparr>, st1)
          else (Inr \<lparr>s1_isShopify = 0 < ch (data r) sel_meta \<or> 0 < ch (data r) sel_script,
                      s1_isPasswordProtected = False\<rparr>, st1))"

text \<open>The \<^verbatim>\<open>catch\<close> block: every path of it returns.\<close>

definition isShopifyStore_catch :: "js_error \<Rightarrow> stage1" where
  "isShopifyStore_catch e =
     (case err_response e of
        Some r \<Rightarrow>
          if poweredByShopify r
          then \<lparr>s1_isShopify = True, s1_isPasswordProtected = False\<rparr>
          else if status r = 404
          then \<lparr>s1_isShopify = False, s1_isPasswordProtected = False\<rparr>
          else \<lparr>s1_isShopify = False, s1_isPasswordProtected = False\<rparr>
      | None \<Rightarrow> \<lparr>s1_isShopify = False, s1_isPasswordProtected = False\<rparr>)"

definition isShopifyStore :: "net \<Rightarrow> cheerio \<Rightarrow> string \<Rightarrow> io \<Rightarrow> stage1 \<times> io" where
  "isShopifyStore net ch url st =
     (case isShopifyStore_try net ch url st of
        (Inr v, st1) \<Rightarrow> (v, st1)
      | (Inl e, st1) \<Rightarrow> (isShopifyStore_catch e, st1))"

subsection \<open>Stage 2: checkURL\<close>

definition checkURL_try :: "net \<Rightarrow> string \<Rightarrow> io \<Rightarrow> (js_error + bool) \<times> io" where
  "checkURL_try net url st =
     (case axiosRetry net url timeout_only default_retries default_backoff st of
        (Inl e, st1) \<Rightarrow> (Inl e, st1)
      | (Inr None, st1) \<Rightarrow> (Inl TypeError, st1)
      | (Inr (Some r), st1) \<Rightarrow> (Inr (status r = 200), st1))"

definition checkURL_catch :: "js_error \<Rightarrow> bool" where
  "checkURL_catch e =
     (case err_response e of
        Some r \<Rightarrow>
          if poweredByShopify r then False
          else if status r = 404 then False
          else False
      | None \<Rightarrow> False)"

definition checkURL :: "net \<Rightarrow> string \<Rightarrow> io \<Rightarrow> bool \<times> io" where
  "checkURL net url st =
     (case checkURL_try net url st of
        (Inr v, st1) \<Rightarrow> (v, st1)
      | (Inl e, st1) \<Rightarrow> (checkURL_catch e, st1))"

subsection \<open>Stage 3: checkPasswordProtection\<close>

definition password_options :: options where
  "password_options =
     \<lparr>timeout = 15000, maxRedirects = Some 5, validateStatus = Some (\<lambda>status. status < 400)\<rparr>"

definition sel_password :: string where
  "sel_password = ''input[type=\"password\"]''"

text \<open>\<^verbatim>\<open>response.request.res.responseUrl || response.config.url\<close>\<close>

definition finalUrl :: "response \<Rightarrow> string option" where
  "finalUrl r = (if truthy (responseUrl r) then responseUrl r else config_url r)"

definition checkPasswordProtection_try ::
  "net \<Rightarrow> cheerio \<Rightarrow> string \<Rightarrow> io \<Rightarrow> (js_error + bool) \<times> io" where
  "checkPasswordProtection_try net ch url st =
     (case axios_get net url password_options st of
        (Inl e, st1) \<Rightarrow> (Inl e, st1)
      | (Inr r, st1) \<Rightarrow>
          (case finalUrl r of
             None \<Rightarrow> (Inr False, st1)
           | Some u \<Rightarrow>
               if u = [] then (Inr False, st1)
               else if endsWith u ''/password'' then (Inr (0 < ch (data r) sel_password), st1)
               else (Inr False, st1)))"

definition checkPasswordProtection_catch :: "js_error \<Rightarrow> bool" where
  "checkPasswordProtection_catch e =
     (case err_response e of
        Some r \<Rightarrow>
          if status r = 301 \<or> status r = 302 then False
          else if status r = 404 then False
          else False
      | None \<Rightarrow> False)"

definition checkPasswordProtection :: "net \<Rightarrow> cheerio \<Rightarrow> string \<Rightarrow> io \<Rightarrow> bool \<times> io" where
  "checkPasswordProtection net ch url st =
     (case checkPasswordProtection_try net ch url st of
        (Inr v, st1) \<Rightarrow> (v, st1)
      | (Inl e, st1) \<Rightarrow> (checkPasswordProtection_catch e, st1))"

section \<open>processURL\<close>

record probe_result =
  isShopify :: bool
  isActive :: bool
  isPasswordProtected :: bool

text \<open>
  The argument is the CSV cell the caller read, \<open>None\<close> when the row has no such
  property: \<^verbatim>\<open>url.startsWith\<close> then throws a \<^verbatim>\<open>TypeError\<close>, outside every
  \<^verbatim>\<open>try\<close>.
\<close>

definition withProtocol :: "string \<Rightarrow> string" where
  "withProtocol url =
     (if \<not> startsWith url ''http://'' \<and> \<not> startsWith url ''https://''
      then ''http://'' @ url else url)"

definition processURL :: "net \<Rightarrow> cheerio \<Rightarrow> string option \<Rightarrow> io \<Rightarrow> (js_error + probe_result) \<times> io" where
  "processURL net ch url0 st =
     (case url0 of
        None \<Rightarrow> (Inl TypeError, st)
      | Some u \<Rightarrow>
          (let url = withProtocol u in
           case isShopifyStore net ch url st of
             (s1, st1) \<Rightarrow>
               if s1_isShopify s1 then
                 (case checkURL net url st1 of
                    (active, st2) \<Rightarrow>
                      if active then
                        (case checkPasswordProtection net ch url st2 of
                           (pp, st3) \<Rightarrow>
                             (Inr \<lparr>isShopify = True, isActive = True, isPasswordProtected = pp\<rparr>, st3))
                      else
                        (Inr \<lparr>isShopify = True, isActive = False, isPasswordProtected = False\<rparr>, st2))
               else
                 (Inr \<lparr>isShopify = False, isActive = False, isPasswordProtected = False\<rparr>, st1)))"

section \<open>Reading the input and scheduling the classifications\<close>

text \<open>
  A row is the object the CSV parser yields for one line: its properties in order, each
  a string, with distinct names. \<open>map_of rowdata k\<close> is \<^verbatim>\<open>data[k]\<close>, \<open>None\<close> for
  \<^verbatim>\<open>undefined\<close>.

  The repository holds two scripts with the same classification and two drivers of the
  same names. The suffix \<open>_A\<close> marks the functions of checkStores.js (columns
  \<^verbatim>\<open>ClientId\<close> and \<^verbatim>\<open>URL\<close>, batches of ten), the suffix \<open>_B\<close> those of
  the second script (columns \<^verbatim>\<open>Record ID\<close> and \<^verbatim>\<open>Website URL\<close>, a limiter of
  twenty, extra columns and extra rows).

  Each classification talks to the network on its own, so the drivers take one network
  per row: \<open>nets i\<close> answers the requests of the classification of row \<open>i\<close>.
  What the model keeps of the concurrency is which classifications are started
  together and what is collected; the order in which responses arrive is not modelled.
\<close>

type_synonym row = "(string \<times> string) list"

text \<open>
  \<^verbatim>\<open>Promise.all\<close>: the list of the values when every promise is fulfilled, and a
  rejection when one is rejected (here the rejection of the first rejected promise of
  the list).
\<close>

fun promise_all :: "(js_error + 'a) list \<Rightarrow> js_error + 'a list" where
  "promise_all [] = Inr []"
| "promise_all (p # ps) =
     (case p of
        Inl e \<Rightarrow> Inl e
      | Inr v \<Rightarrow> (case promise_all ps of Inl e \<Rightarrow> Inl e | Inr vs \<Rightarrow> Inr (v # vs)))"

text \<open>\<^verbatim>\<open>Array.prototype.join\<close> on strings, and the conversions of template literals.\<close>

fun js_join :: "string \<Rightarrow> string list \<Rightarrow> string" where
  "js_join sep [] = []"
| "js_join sep [x] = x"
| "js_join sep (x # y # ys) = x @ sep @ js_join sep (y # ys)"

fun show_bool :: "bool \<Rightarrow> string" where
  "show_bool True = ''true''"
| "show_bool False = ''false''"

fun show_opt :: "string option \<Rightarrow> string" where
  "show_opt None = ''undefined''"
| "show_opt (Some s) = s"

record metrics =
  totalStores :: nat
  shopifyStores :: nat
  activeStores :: nat
  passwordProtectedStores :: nat
  inactiveStores :: int

text \<open>
  The report: the header line, one line per classified record, the extra rows, and the
  counts of the metrics block. The percentages and the times of the metrics block are
  not modelled.
\<close>

record report =
  header :: string
  row_lines :: "string list"
  extra_rows :: "string list"
  run_metrics :: metrics

subsection \<open>checkStores.js: batches of ten\<close>

record task =
  task_url :: "string option"
  task_clientId :: "string option"

record store_record = probe_result +
  r_clientId :: "string option"
  r_url :: "string option"

definition concurrencyLimit_A :: nat where
  "concurrencyLimit_A = 10"

text \<open>\<^verbatim>\<open>processURL(url).then(result => ({clientId, url, ...result}))\<close>\<close>

definition classify_task :: "net \<Rightarrow> cheerio \<Rightarrow> task \<Rightarrow> js_error + store_record" where
  "classify_task net ch t =
     (case fst (processURL net ch (task_url t) io0) of
        Inl e \<Rightarrow> Inl e
      | Inr result \<Rightarrow>
          Inr \<lparr>isShopify = isShopify result, isActive = isActive result,
               isPasswordProtected = isPasswordProtected result,
               r_clientId = task_clientId t, r_url = task_url t\<rparr>)"

text \<open>
  \<^verbatim>\<open>await Promise.all(batch.map(...))\<close> for a batch whose first task is row
  \<open>base\<close> of the input.
\<close>

definition run_batch :: "(nat \<Rightarrow> net) \<Rightarrow> cheerio \<Rightarrow> nat \<Rightarrow> task list \<Rightarrow> js_error + store_record list" where
  "run_batch nets ch base batch =
     promise_all (map (\<lambda>(i, t). classify_task (nets i) ch t) (zip [base..<base + length batch] batch))"

text \<open>\<^verbatim>\<open>{url, clientId}\<close> for \<^verbatim>\<open>url = data.URL\<close> and \<^verbatim>\<open>clientId = data.ClientId\<close>\<close>

definition task_of_row :: "row \<Rightarrow> task" where
  "task_of_row rowdata = \<lparr>task_url = map_of rowdata ''URL'', task_clientId = map_of rowdata ''ClientId''\<rparr>"

text \<open>
  The \<^verbatim>\<open>for await\<close> loop over the rows still to read, with the current
  \<^verbatim>\<open>batch\<close> and \<^verbatim>\<open>results\<close>, followed by the flush of the last batch.
  The loop awaits each \<^verbatim>\<open>Promise.all\<close> before it reads on, so the
  classifications in flight at any time are those of the batch being awaited. The last
  argument and the second component of the result record the batches handed to
  \<^verbatim>\<open>Promise.all\<close>, in order; the script itself keeps no such list.
\<close>

fun processCSV_A_loop ::
  "(nat \<Rightarrow> net) \<Rightarrow> cheerio \<Rightarrow> row list \<Rightarrow> task list \<Rightarrow> store_record list \<Rightarrow> task list list \<Rightarrow>
     (js_error + store_record list) \<times> task list list" where
  "processCSV_A_loop nets ch [] batch results launched =
     (if 0 < length batch then
        (case run_batch nets ch (length results) batch of
           Inl e \<Rightarrow> (Inl e, launched @ [batch])
         | Inr batchResults \<Rightarrow> (Inr (results @ batchResults), launched @ [batch]))
      else (Inr results, launched))"
| "processCSV_A_loop nets ch (rowdata # rest) batch results launched =
     (let batch1 = batch @ [task_of_row rowdata]
      in if concurrencyLimit_A \<le> length batch1 then
           (case run_batch nets ch (length results) batch1 of
              Inl e \<Rightarrow> (Inl e, launched @ [batch1])
            | Inr batchResults \<Rightarrow>
                processCSV_A_loop nets ch rest [] (results @ batchResults) (launched @ [batch1]))
         else processCSV_A_loop nets ch rest batch1 results launched)"

text \<open>
  \<^verbatim>\<open>writeCSV\<close>. The records have no property \<^verbatim>\<open>ClientId\<close> or \<^verbatim>\<open>URL\<close>, so
  \<^verbatim>\<open>row.ClientId || row.clientId\<close> is \<^verbatim>\<open>row.clientId\<close>, and likewise for the URL.
\<close>

definition row_line_A :: "store_record \<Rightarrow> string" where
  "row_line_A row =
     show_opt (r_clientId row) @ '','' @ show_opt (r_url row) @ '','' @ show_bool (isShopify row) @
     '','' @ show_bool (isActive row) @ '','' @ show_bool (isPasswordProtected row)"

definition metrics_A :: "store_record list \<Rightarrow> metrics" where
  "metrics_A rs =
     \<lparr>totalStores = length rs,
      shopifyStores = length (filter isShopify rs),
      activeStores = length (filter isActive rs),
      passwordProtectedStores = length (filter isPasswordProtected rs),
      inactiveStores = int (length rs) - int (length (filter isActive rs))\<rparr>"

definition writeCSV_A :: "store_record list \<Rightarrow> report" where
  "writeCSV_A rs =
     \<lparr>header = js_join '','' [''ClientId'', ''URL'', ''isShopify'', ''isActive'', ''isPasswordProtected''],
      row_lines = map row_line_A rs,
      extra_rows = [],
      run_metrics = metrics_A rs\<rparr>"

definition processCSV_A :: "(nat \<Rightarrow> net) \<Rightarrow> cheerio \<Rightarrow> row list \<Rightarrow> js_error + report" where
  "processCSV_A nets ch rows =
     (case fst (processCSV_A_loop nets ch rows [] [] []) of
        Inl e \<Rightarrow> Inl e
      | Inr results \<Rightarrow> Inr (writeCSV_A results))"

subsection \<open>The second script: a limiter of twenty, extra columns and extra rows\<close>

text \<open>
  The records of this script are objects whose properties hold strings, booleans or
  \<^verbatim>\<open>undefined\<close>; the row is spread over the result, so a property of the row
  replaces a property of the same name.
\<close>

datatype jsval = JUndefined | JBool bool | JString string

type_synonym obj = "string \<Rightarrow> jsval option"

definition get :: "obj \<Rightarrow> string \<Rightarrow> jsval" where
  "get ob k = (case ob k of None \<Rightarrow> JUndefined | Some v \<Rightarrow> v)"

fun js_truthy :: "jsval \<Rightarrow> bool" where
  "js_truthy JUndefined = False"
| "js_truthy (JBool b) = b"
| "js_truthy (JString s) = (s \<noteq> [])"

definition js_or :: "jsval \<Rightarrow> jsval \<Rightarrow> jsval" where
  "js_or a b = (if js_truthy a then a else b)"

text \<open>The string of a value in a template literal, and as an element of \<^verbatim>\<open>join\<close>.\<close>

fun js_toString :: "jsval \<Rightarrow> string" where
  "js_toString JUndefined = ''undefined''"
| "js_toString (JBool b) = show_bool b"
| "js_toString (JString s) = s"

fun join_elem :: "jsval \<Rightarrow> string" where
  "join_elem JUndefined = []"
| "join_elem v = js_toString v"

fun of_opt :: "string option \<Rightarrow> jsval" where
  "of_opt None = JUndefined"
| "of_opt (Some s) = JString s"


text \<open>\<^verbatim>\<open>{recordId, url, ...result, ...data}\<close>\<close>

definition make_record :: "string option \<Rightarrow> string option \<Rightarrow> probe_result \<Rightarrow> row \<Rightarrow> obj" where
  "make_record recordId url0 result rowdata =
     [''recordId'' \<mapsto> of_opt recordId, ''url'' \<mapsto> of_opt url0,
      ''isShopify'' \<mapsto> JBool (isShopify result), ''isActive'' \<mapsto> JBool (isActive result),
      ''isPasswordProtected'' \<mapsto> JBool (isPasswordProtected result)]
     ++ map_of (map (\<lambda>(k, v). (k, JString v)) rowdata)"

definition classify_row :: "net \<Rightarrow> cheerio \<Rightarrow> row \<Rightarrow> js_error + obj" where
  "classify_row net ch rowdata =
     (case fst (processURL net ch (map_of rowdata ''Website URL'') io0) of
        Inl e \<Rightarrow> Inl e
      | Inr result \<Rightarrow>
          Inr (make_record (map_of rowdata ''Record ID'') (map_of rowdata ''Website URL'') result rowdata))"

text \<open>
  \<^verbatim>\<open>extraColumns.add(...Object.keys(data).filter(...))\<close>. The method \<^verbatim>\<open>add\<close> of a
  \<^verbatim>\<open>Set\<close> takes one argument: of the keys spread into the call the first one is
  added, and \<^verbatim>\<open>undefined\<close> (\<open>None\<close>) when there is no key. The set keeps the order
  of insertion.
\<close>

definition set_add :: "'a \<Rightarrow> 'a list \<Rightarrow> 'a list" where
  "set_add x xs = (if x \<in> set xs then xs else xs @ [x])"

definition first_extra_key :: "row \<Rightarrow> string option" where
  "first_extra_key rowdata =
     (case filter (\<lambda>key. key \<noteq> ''Website URL'' \<and> key \<noteq> ''Record ID'') (map fst rowdata) of
        [] \<Rightarrow> None
      | key # _ \<Rightarrow> Some key)"

definition collect_extraColumns :: "row list \<Rightarrow> string option list" where
  "collect_extraColumns rows = fold (\<lambda>rowdata ec. set_add (first_extra_key rowdata) ec) rows []"

definition expectedColumns :: "string list" where
  "expectedColumns =
     [''Create Date'', ''Number of Associated Contacts'', ''City'', ''Country/Region'',
      ''Last Activity Date'', ''Company owner'']"

text \<open>A column name as a property key (\<^verbatim>\<open>row[col]\<close>) and as an element of \<^verbatim>\<open>join\<close>.\<close>

fun key_of :: "string option \<Rightarrow> string" where
  "key_of None = ''undefined''"
| "key_of (Some k) = k"

fun header_elem :: "string option \<Rightarrow> string" where
  "header_elem None = []"
| "header_elem (Some k) = k"

definition row_line_B :: "string option list \<Rightarrow> obj \<Rightarrow> string" where
  "row_line_B extraColumns row =
     (let recordId = js_or (get row ''Record ID'') (get row ''recordId'');
          url0 = js_or (get row ''Website URL'') (get row ''url'');
          extraData =
            js_join '','' (map (\<lambda>col. join_elem (js_or (get row (key_of col)) (JString []))) extraColumns);
          expectedData =
            js_join '','' (map (\<lambda>col. join_elem (js_or (get row col) (JString []))) expectedColumns)
      in js_toString recordId @ '','' @ js_toString url0 @ '','' @
         js_toString (get row ''isShopify'') @ '','' @ js_toString (get row ''isActive'') @ '','' @
         js_toString (get row ''isPasswordProtected'') @ '','' @ expectedData @ '','' @ extraData)"

definition metrics_B :: "obj list \<Rightarrow> metrics" where
  "metrics_B rs =
     \<lparr>totalStores = length rs,
      shopifyStores = length (filter (\<lambda>row. js_truthy (get row ''isShopify'')) rs),
      activeStores = length (filter (\<lambda>row. js_truthy (get row ''isActive'')) rs),
      passwordProtectedStores = length (filter (\<lambda>row. js_truthy (get row ''isPasswordProtected'')) rs),
      inactiveStores =
        int (length rs) - int (length (filter (\<lambda>row. js_truthy (get row ''isActive'')) rs))\<rparr>"

text \<open>
  A row of the input file is an extra row when
  \<^verbatim>\<open>!data['Website URL'] || !data['Record ID']\<close>.
\<close>

definition is_extra_row :: "row \<Rightarrow> bool" where
  "is_extra_row rowdata = (\<not> truthy (map_of rowdata ''Website URL'') \<or> \<not> truthy (map_of rowdata ''Record ID''))"

text \<open>
  \<^verbatim>\<open>writeCSV(data, startTime, extraColumns)\<close>; \<open>input\<close> is the input file, which
  the function reads again.
\<close>

definition writeCSV_B :: "obj list \<Rightarrow> string option list \<Rightarrow> row list \<Rightarrow> report" where
  "writeCSV_B rs extraColumns input =
     \<lparr>header =
        js_join '','' (map header_elem
          ([Some ''Record ID'', Some ''Website URL'', Some ''isShopify'', Some ''isActive'',
            Some ''isPasswordProtected''] @ map Some expectedColumns @ extraColumns)),
      row_lines = map (row_line_B extraColumns) rs,
      extra_rows = map (\<lambda>rowdata. js_join '','' (map snd rowdata)) (filter is_extra_row input),
      run_metrics = metrics_B rs\<rparr>"

text \<open>
  \<^verbatim>\<open>processCSV\<close>: every row is handed to the limiter as it is read, and
  \<^verbatim>\<open>await Promise.all(results)\<close> waits for all of them (\<open>finalResults_B\<close>). The
  limiter decides when each classification starts; it does not change what is
  collected.
\<close>

definition finalResults_B :: "(nat \<Rightarrow> net) \<Rightarrow> cheerio \<Rightarrow> row list \<Rightarrow> js_error + obj list" where
  "finalResults_B nets ch rows =
     promise_all (map (\<lambda>(i, rowdata). classify_row (nets i) ch rowdata) (zip [0..<length rows] rows))"

definition processCSV_B :: "(nat \<Rightarrow> net) \<Rightarrow> cheerio \<Rightarrow> row list \<Rightarrow> js_error + report" where
  "processCSV_B nets ch rows =
     (case finalResults_B nets ch rows of
        Inl e \<Rightarrow> Inl e
      | Inr finalResults \<Rightarrow> Inr (writeCSV_B finalResults (collect_extraColumns rows) rows))"

subsection \<open>The limiter of the second script\<close>






subsection \<open>Names used to state the properties of the report\<close>

text \<open>
  The property names of a result, and those of a record of the second script before
  the row is spread over it.
\<close>

definition result_keys :: "string list" where
  "result_keys = [''isShopify'', ''isActive'', ''isPasswordProtected'']"

definition record_keys :: "string list" where
  "record_keys = [''recordId'', ''url''] @ result_keys"

text \<open>
  The values a row has for the expected columns, the empty string where it has none,
  joined by commas.
\<close>

definition expected_values :: "row \<Rightarrow> string" where
  "expected_values rowdata =
     js_join '','' (map (\<lambda>col. case map_of rowdata col of None \<Rightarrow> [] | Some v \<Rightarrow> v) expectedColumns)"

section \<open>Example networks and inputs\<close>

text \<open>
  Concrete responses, errors, networks, one HTML inspector, input files and one run of
  the limiter, for the examples below.
\<close>

definition err_timeout :: js_error where
  "err_timeout = Error None ''timeout of 15000ms exceeded''"

definition resp_ok :: response where
  "resp_ok = \<lparr>status = 200, headers = [], data = ''<html></html>'',
     responseUrl = Some ''http://shop.example/'', config_url = Some ''http://shop.example''\<rparr>"

definition resp_created :: response where
  "resp_created = resp_ok\<lparr>status := 201\<rparr>"

definition resp_gate :: response where
  "resp_gate = \<lparr>status = 200, headers = [],
     data = ''<form><input type=\"password\" name=\"password\"></form>'',
     responseUrl = None, config_url = Some ''http://shop.example/password''\<rparr>"

definition resp_503 :: response where
  "resp_503 = \<lparr>status = 503, headers = [(''powered-by'', ''Shopify'')], data = [],
     responseUrl = None, config_url = Some ''http://example.com''\<rparr>"

definition err_503 :: js_error where
  "err_503 = Error (Some resp_503) ''Request failed with status code 503''"

definition net_third_time :: net where
  "net_third_time url opts k = (if k < 2 then Inl err_timeout else Inr resp_ok)"

definition net_down :: net where
  "net_down url opts k = Inl err_timeout"

definition net_503 :: net where
  "net_503 url opts k = Inl err_503"

definition net_ok :: net where
  "net_ok url opts k = Inr resp_ok"

definition net_created :: net where
  "net_created url opts k = Inr resp_created"

definition net_gate :: net where
  "net_gate url opts k = Inr resp_gate"

definition ch_stub :: cheerio where
  "ch_stub html sel =
     (if sel = sel_password \<and> js_includes html ''type=\"password\"'' then 1
      else if sel = sel_script \<and> js_includes html ''cdn.shopify.com'' then 1
      else 0)"

definition nets_down :: "nat \<Rightarrow> net" where
  "nets_down i = net_down"

definition nets_ok :: "nat \<Rightarrow> net" where
  "nets_ok i = net_ok"

definition rows_clients :: "row list" where
  "rows_clients =
     [[(''ClientId'', ''7''), (''URL'', ''foo.myshopify.com'')],
      [(''ClientId'', ''8''), (''URL'', ''shop.example'')]]"

definition rows_extra :: "row list" where
  "rows_extra =
     [[(''Record ID'', ''1''), (''Website URL'', ''a.example''), (''Industry'', ''Retail''),
       (''Notes'', ''vip'')],
      [(''Record ID'', ''2''), (''Website URL'', []), (''Industry'', ''Toys''),
       (''Notes'', ''call back'')]]"



definition rows_short :: "row list" where
  "rows_short =
     [[(''Record ID'', ''1''), (''Website URL'', ''a.example''), (''Industry'', ''Retail'')],
      [(''Record ID'', ''2'')]]"








definition rows_active :: "row list" where
  "rows_active = [[(''Record ID'', ''1''), (''Website URL'', ''example.com''), (''isActive'', ''yes'')]]"

section \<open>Properties of the HTTP layer and of the stages\<close>

text \<open>
  The loop for any retry count: it issues at most \<open>retries - i\<close> requests, and
  when every attempt fails it throws the last error after waiting
  \<open>backoff * j\<close> ms after failed attempt \<open>j\<close>, for each \<open>j\<close> before the last.
\<close>

declare axiosRetry_loop.simps [simp del]

lemma axiosRetry_loop_requests:
  "requests (snd (axiosRetry_loop net url opts retries backoff i st)) \<le> requests st + (retries - i)"
proof (induction "retries - i" arbitrary: i st)
  case 0
  then show ?case
    by (simp add: axiosRetry_loop.simps [of net url opts retries backoff i st])
next
  case (Suc n)
  then have lt: "i < retries"
    by simp
  show ?case
  proof (cases "net url opts (requests st)")
    case (Inr r)
    then show ?thesis
      using lt
      by (simp add: axiosRetry_loop.simps [of net url opts retries backoff i st] axios_get_def)
  next
    case (Inl e)
    show ?thesis
    proof (cases "i < retries - 1")
      case False
      then show ?thesis
        using lt Inl
        by (simp add: axiosRetry_loop.simps [of net url opts retries backoff i st] axios_get_def)
    next
      case True
      let ?st = "wait (backoff * (i + 1)) (snd (axios_get net url opts st))"
      have "n = retries - (i + 1)"
        using Suc.hyps(2) by simp
      then have "requests (snd (axiosRetry_loop net url opts retries backoff (i + 1) ?st)) \<le>
          requests ?st + (retries - (i + 1))"
        by (rule Suc.hyps(1))
      then show ?thesis
        using lt Inl True
        by (simp add: axiosRetry_loop.simps [of net url opts retries backoff i st] axios_get_def
            wait_def)
    qed
  qed
qed

lemma axiosRetry_requests:
  "requests (snd (axiosRetry net url opts retries backoff st)) \<le> requests st + retries"
  using axiosRetry_loop_requests [of net url opts retries backoff 0 st]
  by (simp add: axiosRetry_def)

lemma axiosRetry_loop_all_fail:
  assumes "i < retries"
    and "\<And>k. k < retries - i \<Longrightarrow> net url opts (requests st + k) = Inl (errs (i + k))"
  shows "fst (axiosRetry_loop net url opts retries backoff i st) = Inl (errs (retries - 1)) \<and>
    requests (snd (axiosRetry_loop net url opts retries backoff i st)) = requests st + (retries - i) \<and>
    sleeps (snd (axiosRetry_loop net url opts retries backoff i st)) =
      sleeps st @ map (\<lambda>j. backoff * j) [i + 1..<retries] \<and>
    events (snd (axiosRetry_loop net url opts retries backoff i st)) =
      events st @
      concat (map (\<lambda>j. [Requested (requests st + (j - i)), Waited (backoff * (j + 1))]) [i..<retries - 1]) @
      [Requested (requests st + (retries - 1 - i))]"
  using assms
proof (induction "retries - i" arbitrary: i st)
  case 0
  then show ?case by simp
next
  case (Suc n)
  have first: "net url opts (requests st) = Inl (errs i)"
    using Suc.prems(2) [of 0] Suc.prems(1) by simp
  show ?case
  proof (cases "i < retries - 1")
    case False
    then have last: "retries - i = 1" "retries - 1 = i" "[i + 1..<retries] = []"
      using Suc.prems(1) by simp_all
    have "axiosRetry_loop net url opts retries backoff i st =
        (Inl (errs i), snd (axios_get net url opts st))"
      using Suc.prems(1) first False
      by (simp add: axiosRetry_loop.simps [of net url opts retries backoff i st] axios_get_def)
    then show ?thesis
      by (simp only: last) (simp add: axios_get_def)
  next
    case True
    let ?st = "wait (backoff * (i + 1)) (snd (axios_get net url opts st))"
    have n: "n = retries - (i + 1)"
      using Suc.hyps(2) by simp
    have lt: "i + 1 < retries"
      using True by simp
    have rest: "net url opts (requests ?st + k) = Inl (errs (i + 1 + k))"
      if "k < retries - (i + 1)" for k
      using Suc.prems(2) [of "Suc k"] that by (simp add: wait_def axios_get_def)
    have unfold: "axiosRetry_loop net url opts retries backoff i st =
        axiosRetry_loop net url opts retries backoff (i + 1) ?st"
      using Suc.prems(1) True first
      by (simp add: axiosRetry_loop.simps [of net url opts retries backoff i st] axios_get_def)
    have shift: "map (\<lambda>j. [Requested (requests ?st + (j - (i + 1))), Waited (backoff * (j + 1))])
          [i + 1..<retries - 1] =
        map (\<lambda>j. [Requested (requests st + (j - i)), Waited (backoff * (j + 1))]) [i + 1..<retries - 1]"
      by (rule map_cong) (auto simp: wait_def axios_get_def)
    have lastreq: "requests ?st + (retries - 1 - (i + 1)) = requests st + (retries - 1 - i)"
      using lt by (simp add: wait_def axios_get_def)
    show ?thesis
      using Suc.hyps(1) [OF n lt rest] lt True
      unfolding unfold shift lastreq
      by (simp add: upt_conv_Cons wait_def axios_get_def)
  qed
qed

text \<open>
  With the default arguments the loop of \<^verbatim>\<open>axiosRetry\<close> unfolds to at most two
  calls of \<^verbatim>\<open>axios.get\<close>.
\<close>

lemma axiosRetry_default:
  "axiosRetry net url opts default_retries default_backoff st =
     (case net url opts (requests st) of
        Inr r1 \<Rightarrow> (Inr (Some r1), st\<lparr>requests := requests st + 1, events := events st @ [Requested (requests st)]\<rparr>)
      | Inl e1 \<Rightarrow>
          (case net url opts (requests st + 1) of
             Inr r2 \<Rightarrow>
               (Inr (Some r2), st\<lparr>requests := requests st + 2, sleeps := sleeps st @ [3000],
                  events := events st @ [Requested (requests st), Waited 3000, Requested (requests st + 1)]\<rparr>)
           | Inl e2 \<Rightarrow>
               (Inl e2, st\<lparr>requests := requests st + 2, sleeps := sleeps st @ [3000],
                  events := events st @ [Requested (requests st), Waited 3000, Requested (requests st + 1)]\<rparr>)))"
  by (simp add: axiosRetry_def default_retries_def default_backoff_def axiosRetry_loop.simps
      axios_get_def wait_def split: sum.splits)

lemma axiosRetry_default_not_undefined:
  "fst (axiosRetry net url opts default_retries default_backoff st) \<noteq> Inr None"
  by (simp add: axiosRetry_default split: sum.splits)

lemma axiosRetry_default_requests:
  "requests st < requests (snd (axiosRetry net url opts default_retries default_backoff st)) \<and>
   requests (snd (axiosRetry net url opts default_retries default_backoff st)) \<le> requests st + 2"
  by (simp add: axiosRetry_default split: sum.splits)

text \<open>
  Claim C4. \<^verbatim>\<open>axiosRetry\<close> with its default retry count 2 and backoff 3000 ms
  makes at most two attempts. A first attempt that succeeds is returned at once, with
  no wait. After a failed first attempt it waits \<open>3000 * 1\<close> ms and makes the second
  attempt; the second attempt's response is returned, or its error is thrown. The
  events of the state are in this order: the first request, the wait of \<open>3000 * 1\<close>
  ms, the second request. The outcome of a third attempt is never asked for: the
  result is a function of the first two outcomes alone.
\<close>

theorem axiosRetry_two_attempts:
  "default_retries = 2 \<and> default_backoff = 3000 \<and>
   axiosRetry net url opts default_retries default_backoff st =
     (case net url opts (requests st) of
        Inr r1 \<Rightarrow> (Inr (Some r1), st\<lparr>requests := requests st + 1, events := events st @ [Requested (requests st)]\<rparr>)
      | Inl e1 \<Rightarrow>
          (case net url opts (requests st + 1) of
             Inr r2 \<Rightarrow>
               (Inr (Some r2),
                st\<lparr>requests := requests st + 2, sleeps := sleeps st @ [default_backoff * 1],
                   events := events st @
                     [Requested (requests st), Waited (default_backoff * 1), Requested (requests st + 1)]\<rparr>)
           | Inl e2 \<Rightarrow>
               (Inl e2,
                st\<lparr>requests := requests st + 2, sleeps := sleeps st @ [default_backoff * 1],
                   events := events st @
                     [Requested (requests st), Waited (default_backoff * 1), Requested (requests st + 1)]\<rparr>)))"
  unfolding axiosRetry_default
  by (simp add: default_retries_def default_backoff_def split: sum.splits)

text \<open>
  A request that fails twice and would succeed on the third attempt: the second
  failure is thrown after the first request, one wait of 3000 ms and the second
  request, in this order.
\<close>

theorem axiosRetry_two_attempts_witness:
  "net_third_time ''http://shop.example'' timeout_only 2 = Inr resp_ok \<and>
   axiosRetry net_third_time ''http://shop.example'' timeout_only default_retries default_backoff io0 =
     (Inl err_timeout, \<lparr>requests = 2, sleeps = [3000], events = [Requested 0, Waited 3000, Requested 1]\<rparr>)"
  using axiosRetry_two_attempts [of net_third_time "''http://shop.example''" timeout_only io0]
  by (simp add: net_third_time_def io0_def)

text \<open>
  Claim C6. When the request of \<^verbatim>\<open>checkURL\<close> succeeds within the two attempts of
  \<^verbatim>\<open>axiosRetry\<close>, the result is \<open>status = 200\<close>; when it fails, whatever the
  error carries (a response whose \<^verbatim>\<open>powered-by\<close> header names Shopify, a 404, no
  response at all), the result is \<open>False\<close>. \<^verbatim>\<open>checkURL\<close> returns a boolean in every
  case.
\<close>

theorem checkURL_status:
  "fst (axiosRetry net url timeout_only default_retries default_backoff st) \<noteq> Inr None \<and>
   checkURL net url st =
     (case axiosRetry net url timeout_only default_retries default_backoff st of
        (Inr (Some r), st1) \<Rightarrow> (status r = 200, st1)
      | (Inr None, st1) \<Rightarrow> (False, st1)
      | (Inl e, st1) \<Rightarrow> (False, st1))"
  by (simp add: axiosRetry_default_not_undefined checkURL_def checkURL_try_def checkURL_catch_def
      split: prod.splits sum.splits option.splits)

theorem checkURL_status_witness:
  "checkURL net_ok ''http://shop.example'' io0 = (True, \<lparr>requests = 1, sleeps = [], events = [Requested 0]\<rparr>) \<and>
   checkURL net_created ''http://shop.example'' io0 = (False, \<lparr>requests = 1, sleeps = [], events = [Requested 0]\<rparr>) \<and>
   checkURL net_503 ''http://shop.example'' io0 = (False, \<lparr>requests = 2, sleeps = [3000], events = [Requested 0, Waited 3000, Requested 1]\<rparr>)"
  using checkURL_status [of net_ok "''http://shop.example''" io0]
    checkURL_status [of net_created "''http://shop.example''" io0]
    checkURL_status [of net_503 "''http://shop.example''" io0]
  by (simp add: axiosRetry_default net_ok_def net_created_def net_503_def resp_ok_def
      resp_created_def io0_def)

lemma checkURL_catch_False: "checkURL_catch e = False"
  by (auto simp: checkURL_catch_def split: option.splits)

lemma checkPasswordProtection_catch_False: "checkPasswordProtection_catch e = False"
  by (auto simp: checkPasswordProtection_catch_def split: option.splits)



text \<open>
  Claim C10. When the response records no redirect URL
  (\<^verbatim>\<open>response.request.res.responseUrl\<close> is undefined or empty), the final URL is
  \<^verbatim>\<open>response.config.url\<close>, which axios sets to the requested URL. The result is
  then \<open>True\<close> exactly when the requested URL itself ends in \<^verbatim>\<open>/password\<close> and the
  body has a password input: without any redirect the function can return \<open>True\<close>.
\<close>

theorem checkPasswordProtection_fallback:
  assumes "net url password_options (requests st) = Inr r"
    and "\<not> truthy (responseUrl r)"
    and "config_url r = Some url"
  shows "finalUrl r = Some url \<and>
    fst (checkPasswordProtection net ch url st) =
      (endsWith url ''/password'' \<and> 0 < ch (data r) sel_password)"
  using assms
  by (auto simp: finalUrl_def checkPasswordProtection_def checkPasswordProtection_try_def
      axios_get_def endsWith_def split: prod.splits sum.splits option.splits if_splits)







text \<open>
  The requested URL ends in \<^verbatim>\<open>/password\<close>, the response records no redirect
  URL and its body has a password input: the result is \<open>True\<close>.
\<close>

theorem checkPasswordProtection_fallback_witness:
  "net_gate ''http://shop.example/password'' password_options (requests io0) = Inr resp_gate \<and>
   \<not> truthy (responseUrl resp_gate) \<and>
   config_url resp_gate = Some ''http://shop.example/password'' \<and>
   finalUrl resp_gate = Some ''http://shop.example/password'' \<and>
   fst (checkPasswordProtection net_gate ch_stub ''http://shop.example/password'' io0)"
proof -
  have a: "net_gate ''http://shop.example/password'' password_options (requests io0) = Inr resp_gate"
    by (simp add: net_gate_def)
  have b: "\<not> truthy (responseUrl resp_gate)"
    by (simp add: resp_gate_def)
  have c: "config_url resp_gate = Some ''http://shop.example/password''"
    by (simp add: resp_gate_def)
  show ?thesis
    using a b c
      checkPasswordProtection_fallback
        [of net_gate "''http://shop.example/password''" io0 resp_gate ch_stub]
    by (simp add: endsWith_def resp_gate_def ch_stub_def sel_password_def)
qed

section \<open>Properties of processURL\<close>

text \<open>
  Claim C3. In every result of \<^verbatim>\<open>processURL\<close>, \<open>isActive\<close> holds only if
  \<open>isShopify\<close> does, and \<open>isPasswordProtected\<close> only if \<open>isActive\<close> does.
  \<open>isShopify\<close> is the answer of stage 1; when it is false no later stage runs (the
  state is the one stage 1 left); when it is true \<open>isActive\<close> is the answer of stage 2,
  and when that is false stage 3 does not run.
\<close>

theorem processURL_chain:
  assumes "processURL net ch (Some u) st = (Inr r, st')"
  shows "(isActive r \<longrightarrow> isShopify r) \<and> (isPasswordProtected r \<longrightarrow> isActive r) \<and>
    isShopify r = s1_isShopify (fst (isShopifyStore net ch (withProtocol u) st)) \<and>
    (\<not> isShopify r \<longrightarrow> st' = snd (isShopifyStore net ch (withProtocol u) st)) \<and>
    (isShopify r \<longrightarrow>
       isActive r = fst (checkURL net (withProtocol u) (snd (isShopifyStore net ch (withProtocol u) st)))) \<and>
    (isShopify r \<and> \<not> isActive r \<longrightarrow>
       st' = snd (checkURL net (withProtocol u) (snd (isShopifyStore net ch (withProtocol u) st))))"
  using assms
  by (auto simp: processURL_def Let_def split: option.splits prod.splits if_splits)

text \<open>Evaluation of the stages on a network that answers every request with 200.\<close>

lemma ex_stage1_marker:
  "isShopifyStore net_ok ch_stub ''http://foo.myshopify.com'' st =
     (\<lparr>s1_isShopify = True, s1_isPasswordProtected = False\<rparr>, st\<lparr>requests := requests st + 1, events := events st @ [Requested (requests st)]\<rparr>)"
  by (simp add: isShopifyStore_def isShopifyStore_try_def axiosRetry_default net_ok_def)

lemma ex_stage2_ok:
  "checkURL net_ok url st = (True, st\<lparr>requests := requests st + 1, events := events st @ [Requested (requests st)]\<rparr>)"
  by (simp add: checkURL_def checkURL_try_def axiosRetry_default net_ok_def resp_ok_def)

lemma ex_stage3_ok:
  "checkPasswordProtection net_ok ch url st = (False, st\<lparr>requests := requests st + 1, events := events st @ [Requested (requests st)]\<rparr>)"
  by (simp add: checkPasswordProtection_def checkPasswordProtection_try_def axios_get_def
      net_ok_def resp_ok_def finalUrl_def endsWith_def)

lemma ex_withProtocol: "withProtocol ''foo.myshopify.com'' = ''http://foo.myshopify.com''"
  by (simp add: withProtocol_def startsWith_def)

lemma ex_processURL_marker:
  "processURL net_ok ch_stub (Some ''foo.myshopify.com'') io0 =
     (Inr \<lparr>isShopify = True, isActive = True, isPasswordProtected = False\<rparr>,
      \<lparr>requests = 3, sleeps = [], events = [Requested 0, Requested 1, Requested 2]\<rparr>)"
  by (simp add: processURL_def Let_def ex_withProtocol ex_stage1_marker ex_stage2_ok ex_stage3_ok
      io0_def)

text \<open>
  A host with the marker on that network: all three stages run (three requests), and
  the result is Shopify, active and not password protected.
\<close>

theorem processURL_chain_witness:
  "processURL net_ok ch_stub (Some ''foo.myshopify.com'') io0 =
     (Inr \<lparr>isShopify = True, isActive = True, isPasswordProtected = False\<rparr>,
      \<lparr>requests = 3, sleeps = [], events = [Requested 0, Requested 1, Requested 2]\<rparr>) \<and>
   s1_isShopify (fst (isShopifyStore net_ok ch_stub (withProtocol ''foo.myshopify.com'') io0)) \<and>
   fst (checkURL net_ok (withProtocol ''foo.myshopify.com'')
          (snd (isShopifyStore net_ok ch_stub (withProtocol ''foo.myshopify.com'') io0)))"
  using ex_processURL_marker processURL_chain [OF ex_processURL_marker]
  by simp

section \<open>Stage 1 on a URL with the marker\<close>

text \<open>
  The marker test of \<^verbatim>\<open>isShopifyStore\<close> stands after the request, inside the
  \<^verbatim>\<open>try\<close> block. On a network that is down, a URL with the marker costs two
  requests and is classified as not Shopify.
\<close>

theorem isShopifyStore_marker_counterexample:
  "js_includes ''http://foo.myshopify.com'' ''.myshopify.com'' \<and>
   isShopifyStore net_down ch_stub ''http://foo.myshopify.com'' io0 =
     (\<lparr>s1_isShopify = False, s1_isPasswordProtected = False\<rparr>, \<lparr>requests = 2, sleeps = [3000], events = [Requested 0, Waited 3000, Requested 1]\<rparr>)"
  by (simp add: isShopifyStore_def isShopifyStore_try_def isShopifyStore_catch_def
      axiosRetry_default net_down_def err_timeout_def io0_def)

text \<open>
  Claim C1, as the code has it. For a URL that contains \<^verbatim>\<open>.myshopify.com\<close> or
  \<^verbatim>\<open>shopify.com\<close>, \<^verbatim>\<open>isShopifyStore\<close> first issues its request through
  \<^verbatim>\<open>axiosRetry\<close>: one or two HTTP attempts, never none. If the request succeeds
  the URL is classified as Shopify whatever the headers and the body of the response
  are. If it fails the marker is not looked at: the URL is Shopify exactly when the
  error carries a response whose \<^verbatim>\<open>powered-by\<close> header names Shopify.
\<close>

theorem isShopifyStore_marker:
  assumes "js_includes url ''.myshopify.com'' \<or> js_includes url ''shopify.com''"
  shows "requests st < requests (snd (isShopifyStore net ch url st)) \<and>
    requests (snd (isShopifyStore net ch url st)) \<le> requests st + 2 \<and>
    isShopifyStore net ch url st =
      (case axiosRetry net url timeout_only default_retries default_backoff st of
         (Inr (Some r), st1) \<Rightarrow> (\<lparr>s1_isShopify = True, s1_isPasswordProtected = False\<rparr>, st1)
       | (Inr None, st1) \<Rightarrow> (isShopifyStore_catch TypeError, st1)
       | (Inl e, st1) \<Rightarrow>
           (\<lparr>s1_isShopify = (case err_response e of None \<Rightarrow> False | Some x \<Rightarrow> poweredByShopify x),
             s1_isPasswordProtected = False\<rparr>, st1))"
proof -
  have "snd (isShopifyStore net ch url st) =
      snd (axiosRetry net url timeout_only default_retries default_backoff st)"
    by (simp add: isShopifyStore_def isShopifyStore_try_def
        split: prod.splits sum.splits option.splits)
  then have "requests st < requests (snd (isShopifyStore net ch url st)) \<and>
      requests (snd (isShopifyStore net ch url st)) \<le> requests st + 2"
    using axiosRetry_default_requests [of st net url timeout_only] by simp
  moreover have "isShopifyStore net ch url st =
      (case axiosRetry net url timeout_only default_retries default_backoff st of
         (Inr (Some r), st1) \<Rightarrow> (\<lparr>s1_isShopify = True, s1_isPasswordProtected = False\<rparr>, st1)
       | (Inr None, st1) \<Rightarrow> (isShopifyStore_catch TypeError, st1)
       | (Inl e, st1) \<Rightarrow>
           (\<lparr>s1_isShopify = (case err_response e of None \<Rightarrow> False | Some x \<Rightarrow> poweredByShopify x),
             s1_isPasswordProtected = False\<rparr>, st1))"
    using assms
    by (simp add: isShopifyStore_def isShopifyStore_try_def isShopifyStore_catch_def
        split: prod.splits sum.splits option.splits)
  ultimately show ?thesis by simp
qed

theorem isShopifyStore_marker_witness:
  "(js_includes ''http://foo.myshopify.com'' ''.myshopify.com'' \<or>
      js_includes ''http://foo.myshopify.com'' ''shopify.com'') \<and>
   isShopifyStore net_ok ch_stub ''http://foo.myshopify.com'' io0 =
     (\<lparr>s1_isShopify = True, s1_isPasswordProtected = False\<rparr>, \<lparr>requests = 1, sleeps = [], events = [Requested 0]\<rparr>) \<and>
   isShopifyStore net_503 ch_stub ''http://foo.myshopify.com'' io0 =
     (\<lparr>s1_isShopify = True, s1_isPasswordProtected = False\<rparr>, \<lparr>requests = 2, sleeps = [3000], events = [Requested 0, Waited 3000, Requested 1]\<rparr>)"
proof -
  have m: "js_includes ''http://foo.myshopify.com'' ''.myshopify.com'' \<or>
      js_includes ''http://foo.myshopify.com'' ''shopify.com''"
    by simp
  show ?thesis
    using m isShopifyStore_marker [OF m, of io0 net_ok ch_stub]
      isShopifyStore_marker [OF m, of io0 net_503 ch_stub]
    by (simp add: axiosRetry_default net_ok_def net_503_def err_503_def resp_503_def
        poweredByShopify_def io0_def)
qed

section \<open>Failures inside processURL\<close>

lemma ex_withProtocol_example: "withProtocol ''example.com'' = ''http://example.com''"
  by (simp add: withProtocol_def startsWith_def)

lemma ex_axiosRetry_503:
  "axiosRetry net_503 url opts default_retries default_backoff st =
     (Inl err_503, st\<lparr>requests := requests st + 2, sleeps := sleeps st @ [3000],
                  events := events st @ [Requested (requests st), Waited 3000, Requested (requests st + 1)]\<rparr>)"
  by (simp add: axiosRetry_default net_503_def)

lemma ex_poweredBy_503: "poweredByShopify resp_503"
  by (simp add: poweredByShopify_def resp_503_def)

lemma ex_stage1_503:
  "isShopifyStore net_503 ch url st =
     (\<lparr>s1_isShopify = True, s1_isPasswordProtected = False\<rparr>,
      st\<lparr>requests := requests st + 2, sleeps := sleeps st @ [3000],
                  events := events st @ [Requested (requests st), Waited 3000, Requested (requests st + 1)]\<rparr>)"
  by (simp add: isShopifyStore_def isShopifyStore_try_def isShopifyStore_catch_def
      ex_axiosRetry_503 err_503_def ex_poweredBy_503)

lemma ex_stage2_503:
  "checkURL net_503 url st =
     (False, st\<lparr>requests := requests st + 2, sleeps := sleeps st @ [3000],
                  events := events st @ [Requested (requests st), Waited 3000, Requested (requests st + 1)]\<rparr>)"
  by (simp add: checkURL_def checkURL_try_def checkURL_catch_False ex_axiosRetry_503)

lemma ex_processURL_503:
  "processURL net_503 ch_stub (Some ''example.com'') io0 =
     (Inr \<lparr>isShopify = True, isActive = False, isPasswordProtected = False\<rparr>,
      \<lparr>requests = 4, sleeps = [3000, 3000],
        events = [Requested 0, Waited 3000, Requested 1, Requested 2, Waited 3000, Requested 3]\<rparr>)"
  by (simp add: processURL_def Let_def ex_withProtocol_example ex_stage1_503 ex_stage2_503 io0_def)

text \<open>
  A failed stage 1 does not always give \<open>False\<close>: when both attempts are answered
  with status 503 and a \<^verbatim>\<open>powered-by\<close> header naming Shopify, the request has
  failed and \<open>isShopify\<close> is \<open>True\<close>.
\<close>

theorem processURL_failure_counterexample:
  "fst (axiosRetry net_503 (withProtocol ''example.com'') timeout_only default_retries
          default_backoff io0) = Inl err_503 \<and>
   fst (processURL net_503 ch_stub (Some ''example.com'') io0) =
     Inr \<lparr>isShopify = True, isActive = False, isPasswordProtected = False\<rparr>"
  by (simp add: ex_axiosRetry_503 ex_processURL_503)

lemma isShopifyStore_failure:
  "axiosRetry net url timeout_only default_retries default_backoff st = (Inl e, st1) \<Longrightarrow>
   isShopifyStore net ch url st =
     (\<lparr>s1_isShopify = (case err_response e of None \<Rightarrow> False | Some x \<Rightarrow> poweredByShopify x),
       s1_isPasswordProtected = False\<rparr>, st1)"
  by (simp add: isShopifyStore_def isShopifyStore_try_def isShopifyStore_catch_def
      split: option.splits)

lemma checkURL_failure:
  "axiosRetry net url timeout_only default_retries default_backoff st = (Inl e, st1) \<Longrightarrow>
   checkURL net url st = (False, st1)"
  by (simp add: checkURL_def checkURL_try_def checkURL_catch_False)

lemma checkPasswordProtection_failure:
  "net url password_options (requests st) = Inl e \<Longrightarrow>
   fst (checkPasswordProtection net ch url st) = False"
  by (simp add: checkPasswordProtection_def checkPasswordProtection_try_def
      checkPasswordProtection_catch_False axios_get_def)

text \<open>
  Claim C2, as the code has it. For every URL string \<^verbatim>\<open>processURL\<close> returns a
  result and throws nothing. A failure inside a stage is absorbed: a failed stage 1
  request gives \<open>isShopify = False\<close> unless the error carries a response whose
  \<^verbatim>\<open>powered-by\<close> header names Shopify, in which case \<open>isShopify = True\<close>; a
  failed stage 2 request gives \<open>isActive = False\<close>; a failed stage 3 request gives
  \<open>isPasswordProtected = False\<close>.
\<close>

theorem processURL_total:
  "\<exists>r st'. processURL net ch (Some u) st = (Inr r, st') \<and>
     (\<forall>e st1. axiosRetry net (withProtocol u) timeout_only default_retries default_backoff st =
          (Inl e, st1) \<longrightarrow>
        isShopify r = (case err_response e of None \<Rightarrow> False | Some x \<Rightarrow> poweredByShopify x)) \<and>
     (\<forall>e st2. isShopify r \<and>
        axiosRetry net (withProtocol u) timeout_only default_retries default_backoff
          (snd (isShopifyStore net ch (withProtocol u) st)) = (Inl e, st2) \<longrightarrow>
        \<not> isActive r) \<and>
     (\<forall>e. isActive r \<and>
        net (withProtocol u) password_options
          (requests (snd (checkURL net (withProtocol u)
             (snd (isShopifyStore net ch (withProtocol u) st))))) = Inl e \<longrightarrow>
        \<not> isPasswordProtected r)"
proof -
  obtain s1 st1 where a: "isShopifyStore net ch (withProtocol u) st = (s1, st1)"
    by (cases "isShopifyStore net ch (withProtocol u) st")
  obtain act st2 where b: "checkURL net (withProtocol u) st1 = (act, st2)"
    by (cases "checkURL net (withProtocol u) st1")
  obtain pp st3 where c: "checkPasswordProtection net ch (withProtocol u) st2 = (pp, st3)"
    by (cases "checkPasswordProtection net ch (withProtocol u) st2")
  show ?thesis
  proof (cases "s1_isShopify s1")
    case False
    then have "processURL net ch (Some u) st =
        (Inr \<lparr>isShopify = False, isActive = False, isPasswordProtected = False\<rparr>, st1)"
      by (simp add: processURL_def Let_def a)
    moreover have "\<forall>e st1. axiosRetry net (withProtocol u) timeout_only default_retries
          default_backoff st = (Inl e, st1) \<longrightarrow>
        False = (case err_response e of None \<Rightarrow> False | Some x \<Rightarrow> poweredByShopify x)"
      using False a by (auto dest!: isShopifyStore_failure [where ch = ch])
    ultimately show ?thesis by simp
  next
    case True
    note s1 = True
    have shop: "\<forall>e st1. axiosRetry net (withProtocol u) timeout_only default_retries
          default_backoff st = (Inl e, st1) \<longrightarrow>
        True = (case err_response e of None \<Rightarrow> False | Some x \<Rightarrow> poweredByShopify x)"
      using s1 a by (auto dest!: isShopifyStore_failure [where ch = ch])
    show ?thesis
    proof (cases act)
      case False
      then have "processURL net ch (Some u) st =
          (Inr \<lparr>isShopify = True, isActive = False, isPasswordProtected = False\<rparr>, st2)"
        by (simp add: processURL_def Let_def a b s1)
      then show ?thesis using shop by simp
    next
      case True
      then have p: "processURL net ch (Some u) st =
          (Inr \<lparr>isShopify = True, isActive = True, isPasswordProtected = pp\<rparr>, st3)"
        by (simp add: processURL_def Let_def a b c s1)
      have nofail: "\<forall>e st2. axiosRetry net (withProtocol u) timeout_only default_retries
          default_backoff st1 \<noteq> (Inl e, st2)"
        using True b by (auto dest!: checkURL_failure)
      have pw: "\<forall>e. net (withProtocol u) password_options (requests st2) = Inl e \<longrightarrow> \<not> pp"
        using c by (auto dest!: checkPasswordProtection_failure [where ch = ch])
      show ?thesis using p shop nofail pw by (simp add: a b)
    qed
  qed
qed

lemma ex_stage1_down:
  "isShopifyStore net_down ch url st =
     (\<lparr>s1_isShopify = False, s1_isPasswordProtected = False\<rparr>,
      st\<lparr>requests := requests st + 2, sleeps := sleeps st @ [3000],
                  events := events st @ [Requested (requests st), Waited 3000, Requested (requests st + 1)]\<rparr>)"
  by (simp add: isShopifyStore_def isShopifyStore_try_def isShopifyStore_catch_def
      axiosRetry_default net_down_def err_timeout_def)

lemma ex_processURL_down:
  "processURL net_down ch_stub (Some ''example.com'') io0 =
     (Inr \<lparr>isShopify = False, isActive = False, isPasswordProtected = False\<rparr>,
      \<lparr>requests = 2, sleeps = [3000], events = [Requested 0, Waited 3000, Requested 1]\<rparr>)"
  by (simp add: processURL_def Let_def ex_withProtocol_example ex_stage1_down io0_def)

theorem processURL_total_witness:
  "axiosRetry net_down (withProtocol ''example.com'') timeout_only default_retries default_backoff io0 =
     (Inl err_timeout, \<lparr>requests = 2, sleeps = [3000], events = [Requested 0, Waited 3000, Requested 1]\<rparr>) \<and>
   processURL net_down ch_stub (Some ''example.com'') io0 =
     (Inr \<lparr>isShopify = False, isActive = False, isPasswordProtected = False\<rparr>,
      \<lparr>requests = 2, sleeps = [3000], events = [Requested 0, Waited 3000, Requested 1]\<rparr>)"
proof -
  have a: "axiosRetry net_down (withProtocol ''example.com'') timeout_only default_retries
      default_backoff io0 = (Inl err_timeout, \<lparr>requests = 2, sleeps = [3000], events = [Requested 0, Waited 3000, Requested 1]\<rparr>)"
    by (simp add: axiosRetry_default net_down_def io0_def)
  show ?thesis
    using processURL_total [of net_down ch_stub "''example.com''" io0] a ex_processURL_down
    by simp
qed

section \<open>The number of requests of a classification\<close>

text \<open>
  Stages 1 and 2 issue at most two requests each and stage 3 exactly one: a
  classification issues at most five.
\<close>

lemma isShopifyStore_requests:
  "requests (snd (isShopifyStore net ch url st)) \<le> requests st + 2"
proof -
  have "snd (isShopifyStore net ch url st) =
      snd (axiosRetry net url timeout_only default_retries default_backoff st)"
    by (simp add: isShopifyStore_def isShopifyStore_try_def
        split: prod.splits sum.splits option.splits)
  then show ?thesis
    using axiosRetry_default_requests [of st net url timeout_only] by simp
qed

lemma checkURL_requests:
  "requests (snd (checkURL net url st)) \<le> requests st + 2"
proof -
  have "snd (checkURL net url st) =
      snd (axiosRetry net url timeout_only default_retries default_backoff st)"
    by (simp add: checkURL_def checkURL_try_def split: prod.splits sum.splits option.splits)
  then show ?thesis
    using axiosRetry_default_requests [of st net url timeout_only] by simp
qed

lemma checkPasswordProtection_requests:
  "requests (snd (checkPasswordProtection net ch url st)) = requests st + 1"
  by (simp add: checkPasswordProtection_def checkPasswordProtection_try_def axios_get_def
      split: prod.splits sum.splits option.splits)

lemma processURL_requests:
  "requests (snd (processURL net ch url0 st)) \<le> requests st + 5"
proof (cases url0)
  case None
  then show ?thesis by (simp add: processURL_def)
next
  case (Some u)
  obtain s1 st1 where a: "isShopifyStore net ch (withProtocol u) st = (s1, st1)"
    by (cases "isShopifyStore net ch (withProtocol u) st")
  obtain act st2 where b: "checkURL net (withProtocol u) st1 = (act, st2)"
    by (cases "checkURL net (withProtocol u) st1")
  obtain pp st3 where c: "checkPasswordProtection net ch (withProtocol u) st2 = (pp, st3)"
    by (cases "checkPasswordProtection net ch (withProtocol u) st2")
  have 1: "requests st1 \<le> requests st + 2"
    using isShopifyStore_requests [of net ch "withProtocol u" st] a by simp
  have 2: "requests st2 \<le> requests st1 + 2"
    using checkURL_requests [of net "withProtocol u" st1] b by simp
  have 3: "requests st3 = requests st2 + 1"
    using checkPasswordProtection_requests [of net ch "withProtocol u" st2] c by simp
  show ?thesis
    using 1 2 3 by (simp add: processURL_def Let_def Some a b c)
qed

section \<open>Properties of the drivers and of the report\<close>

subsection \<open>Results of processURL and of Promise.all\<close>

lemma processURL_gating:
  "processURL net ch url0 st = (Inr r, st') \<Longrightarrow>
     (isActive r \<longrightarrow> isShopify r) \<and> (isPasswordProtected r \<longrightarrow> isActive r)"
  by (auto simp: processURL_def Let_def split: option.splits prod.splits if_splits)

lemma processURL_returns:
  "\<exists>r st'. processURL net ch (Some u) st = (Inr r, st')"
  by (simp add: processURL_def Let_def split: prod.splits)

lemma processURL_undefined:
  "processURL net ch None st = (Inl TypeError, st)"
  by (simp add: processURL_def)

lemma promise_all_Inr:
  "promise_all ps = Inr vs \<Longrightarrow> ps = map Inr vs"
  by (induction ps arbitrary: vs) (auto split: sum.splits)

lemma promise_all_map_Inr:
  "promise_all (map Inr vs) = Inr vs"
  by (induction vs) auto

lemma promise_all_append:
  "promise_all (ps @ qs) =
     (case promise_all ps of
        Inl e \<Rightarrow> Inl e
      | Inr vs \<Rightarrow> (case promise_all qs of Inl e \<Rightarrow> Inl e | Inr ws \<Rightarrow> Inr (vs @ ws)))"
  by (induction ps) (auto split: sum.splits)

lemma promise_all_defined:
  "(\<And>p. p \<in> set ps \<Longrightarrow> \<exists>v. p = Inr v) \<Longrightarrow> \<exists>vs. promise_all ps = Inr vs"
proof (induction ps)
  case Nil
  then show ?case by simp
next
  case (Cons p ps)
  obtain v where "p = Inr v"
    using Cons.prems [of p] by auto
  moreover obtain vs where "promise_all ps = Inr vs"
    using Cons.IH Cons.prems by auto
  ultimately show ?case by simp
qed

lemma filter_length_mono:
  "(\<And>x. x \<in> set xs \<Longrightarrow> P x \<Longrightarrow> Q x) \<Longrightarrow> length (filter P xs) \<le> length (filter Q xs)"
  by (induction xs) auto

lemma zip_upt_in_set:
  "(i, x) \<in> set (zip [0..<length xs] xs) \<Longrightarrow> x \<in> set xs"
  by (auto dest: set_zip_rightD)

subsection \<open>checkStores.js: the batches\<close>

lemma run_batch_length:
  assumes "run_batch nets ch base batch = Inr rs"
  shows "length rs = length batch"
proof -
  have "map (\<lambda>(i, t). classify_task (nets i) ch t) (zip [base..<base + length batch] batch) =
      map Inr rs"
    using assms by (simp add: run_batch_def promise_all_Inr)
  then have "length (map (\<lambda>(i, t). classify_task (nets i) ch t) (zip [base..<base + length batch] batch)) =
      length (map Inr rs :: (js_error + store_record) list)"
    by (rule arg_cong)
  then show ?thesis by simp
qed

lemma run_batch_append:
  "run_batch nets ch base (xs @ ys) =
     (case run_batch nets ch base xs of
        Inl e \<Rightarrow> Inl e
      | Inr rs \<Rightarrow>
          (case run_batch nets ch (base + length xs) ys of
             Inl e \<Rightarrow> Inl e
           | Inr rs' \<Rightarrow> Inr (rs @ rs')))"
proof -
  have "[base..<base + length (xs @ ys)] =
      [base..<base + length xs] @ [base + length xs..<base + length xs + length ys]"
    using upt_add_eq_append [of base "base + length xs" "length ys"] by (simp add: add.assoc)
  then have "zip [base..<base + length (xs @ ys)] (xs @ ys) =
      zip [base..<base + length xs] xs @ zip [base + length xs..<base + length xs + length ys] ys"
    by simp
  then show ?thesis
    unfolding run_batch_def by (simp add: promise_all_append)
qed

lemma run_batch_Nil: "run_batch nets ch base [] = Inr []"
  by (simp add: run_batch_def)

text \<open>
  Batching does not change what is collected: the loop gives what one
  \<^verbatim>\<open>Promise.all\<close> over the tasks of all rows, in input order, gives. So a run
  that does not throw collects exactly one record per row, with the row's
  \<^verbatim>\<open>ClientId\<close>, and a task that throws makes the whole run throw.
\<close>

lemma processCSV_A_loop_eq:
  "fst (processCSV_A_loop nets ch rows batch results launched) =
     (case run_batch nets ch (length results) (batch @ map task_of_row rows) of
        Inl e \<Rightarrow> Inl e
      | Inr rs \<Rightarrow> Inr (results @ rs))"
proof (induction rows arbitrary: batch results launched)
  case Nil
  then show ?case by (simp add: run_batch_Nil split: sum.splits)
next
  case (Cons rowdata rest)
  show ?case
  proof (cases "concurrencyLimit_A \<le> length (batch @ [task_of_row rowdata])")
    case True
    show ?thesis
    proof (cases "run_batch nets ch (length results) (batch @ [task_of_row rowdata])")
      case (Inl e)
      then show ?thesis
        using True run_batch_append [of nets ch "length results" "batch @ [task_of_row rowdata]" "map task_of_row rest"]
        by (simp add: Let_def)
    next
      case (Inr rs)
      then have len: "length rs = Suc (length batch)"
        using run_batch_length by fastforce
      show ?thesis
        using True Inr len Cons.IH [of "[]" "results @ rs" "launched @ [batch @ [task_of_row rowdata]]"]
          run_batch_append [of nets ch "length results" "batch @ [task_of_row rowdata]" "map task_of_row rest"]
        by (simp add: Let_def split: sum.splits)
    qed
  next
    case False
    then show ?thesis
      using Cons.IH [of "batch @ [task_of_row rowdata]" results launched]
      by (simp add: Let_def)
  qed
qed

lemma processCSV_A_eq:
  "processCSV_A nets ch rows =
     (case run_batch nets ch 0 (map task_of_row rows) of
        Inl e \<Rightarrow> Inl e
      | Inr rs \<Rightarrow> Inr (writeCSV_A rs))"
  by (simp add: processCSV_A_def processCSV_A_loop_eq split: sum.splits)

lemma classify_task_chain:
  "classify_task net ch t = Inr r \<Longrightarrow>
     (isActive r \<longrightarrow> isShopify r) \<and> (isPasswordProtected r \<longrightarrow> isActive r)"
  using processURL_gating [of net ch "task_url t" io0]
  by (cases "processURL net ch (task_url t) io0")
    (auto simp: classify_task_def split: sum.splits)

lemma run_batch_chain:
  assumes "run_batch nets ch base batch = Inr rs" and "r \<in> set rs"
  shows "(isActive r \<longrightarrow> isShopify r) \<and> (isPasswordProtected r \<longrightarrow> isActive r)"
proof -
  have "map (\<lambda>(i, t). classify_task (nets i) ch t) (zip [base..<base + length batch] batch) = map Inr rs"
    using assms(1) by (simp add: run_batch_def promise_all_Inr)
  then have "Inr r \<in> set (map (\<lambda>(i, t). classify_task (nets i) ch t) (zip [base..<base + length batch] batch))"
    using assms(2) by simp
  then obtain i t where "classify_task (nets i) ch t = Inr r"
    by auto
  then show ?thesis by (rule classify_task_chain)
qed

lemma metrics_A_chain:
  assumes "\<And>r. r \<in> set rs \<Longrightarrow> (isActive r \<longrightarrow> isShopify r) \<and> (isPasswordProtected r \<longrightarrow> isActive r)"
  shows "activeStores (metrics_A rs) \<le> shopifyStores (metrics_A rs) \<and>
    passwordProtectedStores (metrics_A rs) \<le> activeStores (metrics_A rs)"
  using assms by (simp add: metrics_A_def filter_length_mono)

lemma metrics_sum_A:
  "int (activeStores (metrics_A rs)) + inactiveStores (metrics_A rs) = int (totalStores (metrics_A rs))"
  by (simp add: metrics_A_def)






subsection \<open>The second script: records and lines\<close>

lemma map_of_JString:
  "map_of (map (\<lambda>(k, v). (k, JString v)) rowdata) k = map_option JString (map_of rowdata k)"
  by (induction rowdata) auto

lemma get_make_record_row:
  "map_of rowdata k = Some v \<Longrightarrow> get (make_record rid u res rowdata) k = JString v"
  by (simp add: get_def make_record_def map_add_def map_of_JString)

lemma get_make_record_absent:
  "map_of rowdata k = None \<Longrightarrow>
   get (make_record rid u res rowdata) k =
     (if k = ''isPasswordProtected'' then JBool (isPasswordProtected res)
      else if k = ''isActive'' then JBool (isActive res)
      else if k = ''isShopify'' then JBool (isShopify res)
      else if k = ''url'' then of_opt u
      else if k = ''recordId'' then of_opt rid
      else JUndefined)"
  by (simp add: get_def make_record_def map_add_def map_of_JString)

lemma classify_row_Inr:
  assumes "classify_row net ch rowdata = Inr ob"
  shows "\<exists>res st'. processURL net ch (map_of rowdata ''Website URL'') io0 = (Inr res, st') \<and>
    ob = make_record (map_of rowdata ''Record ID'') (map_of rowdata ''Website URL'') res rowdata"
  using assms
  by (cases "processURL net ch (map_of rowdata ''Website URL'') io0")
    (auto simp: classify_row_def split: sum.splits)

lemma classify_row_defined:
  assumes "map_of rowdata ''Website URL'' \<noteq> None"
  shows "\<exists>res st'. processURL net ch (map_of rowdata ''Website URL'') io0 = (Inr res, st') \<and>
    classify_row net ch rowdata =
      Inr (make_record (map_of rowdata ''Record ID'') (map_of rowdata ''Website URL'') res rowdata)"
proof -
  obtain u where u: "map_of rowdata ''Website URL'' = Some u"
    using assms by blast
  obtain res st' where "processURL net ch (Some u) io0 = (Inr res, st')"
    using processURL_returns by blast
  then show ?thesis
    by (simp add: classify_row_def u)
qed

lemma classify_row_chain:
  assumes "classify_row net ch rowdata = Inr ob"
    and "\<forall>k\<in>set result_keys. map_of rowdata k = None"
  shows "(js_truthy (get ob ''isActive'') \<longrightarrow> js_truthy (get ob ''isShopify'')) \<and>
    (js_truthy (get ob ''isPasswordProtected'') \<longrightarrow> js_truthy (get ob ''isActive''))"
proof -
  obtain res st' where p: "processURL net ch (map_of rowdata ''Website URL'') io0 = (Inr res, st')"
    and ob: "ob = make_record (map_of rowdata ''Record ID'') (map_of rowdata ''Website URL'') res rowdata"
    using classify_row_Inr [OF assms(1)] by blast
  have "map_of rowdata ''isShopify'' = None" "map_of rowdata ''isActive'' = None"
    "map_of rowdata ''isPasswordProtected'' = None"
    using assms(2) by (simp_all add: result_keys_def)
  then show ?thesis
    using processURL_gating [OF p] by (simp add: ob get_make_record_absent)
qed

lemma results_B_chain:
  assumes "finalResults_B nets ch rows = Inr obs"
    and "\<forall>rowdata\<in>set rows. \<forall>k\<in>set result_keys. map_of rowdata k = None"
    and "ob \<in> set obs"
  shows "(js_truthy (get ob ''isActive'') \<longrightarrow> js_truthy (get ob ''isShopify'')) \<and>
    (js_truthy (get ob ''isPasswordProtected'') \<longrightarrow> js_truthy (get ob ''isActive''))"
proof -
  have "map (\<lambda>(i, rowdata). classify_row (nets i) ch rowdata) (zip [0..<length rows] rows) = map Inr obs"
    using assms(1) unfolding finalResults_B_def by (rule promise_all_Inr)
  then have "Inr ob \<in> set (map (\<lambda>(i, rowdata). classify_row (nets i) ch rowdata) (zip [0..<length rows] rows))"
    using assms(3) by simp
  then obtain i rowdata where m: "(i, rowdata) \<in> set (zip [0..<length rows] rows)"
    and c: "classify_row (nets i) ch rowdata = Inr ob"
    by auto
  have "rowdata \<in> set rows"
    using m by (rule zip_upt_in_set)
  then have "\<forall>k\<in>set result_keys. map_of rowdata k = None"
    using assms(2) by blast
  with c show ?thesis by (rule classify_row_chain)
qed

lemma metrics_sum_B:
  "int (activeStores (metrics_B rs)) + inactiveStores (metrics_B rs) = int (totalStores (metrics_B rs))"
  by (simp add: metrics_B_def)

lemma metrics_B_chain:
  assumes "\<And>ob. ob \<in> set obs \<Longrightarrow>
    (js_truthy (get ob ''isActive'') \<longrightarrow> js_truthy (get ob ''isShopify'')) \<and>
    (js_truthy (get ob ''isPasswordProtected'') \<longrightarrow> js_truthy (get ob ''isActive''))"
  shows "activeStores (metrics_B obs) \<le> shopifyStores (metrics_B obs) \<and>
    passwordProtectedStores (metrics_B obs) \<le> activeStores (metrics_B obs)"
  using assms by (simp add: metrics_B_def filter_length_mono)

lemma nth_classify_rows:
  assumes "i < length rows"
  shows "map (\<lambda>(i, rowdata). classify_row (nets i) ch rowdata) (zip [0..<length rows] rows) ! i =
    classify_row (nets i) ch (rows ! i)"
  using assms by simp


lemma expected_cell:
  assumes "col \<in> set expectedColumns"
  shows "join_elem (js_or (get (make_record rid u res rowdata) col) (JString [])) =
    (case map_of rowdata col of None \<Rightarrow> [] | Some v \<Rightarrow> v)"
proof (cases "map_of rowdata col")
  case None
  have "col \<notin> set record_keys"
    using assms by (auto simp: expectedColumns_def record_keys_def result_keys_def)
  then show ?thesis
    using None by (simp add: get_make_record_absent js_or_def record_keys_def result_keys_def)
next
  case (Some v)
  then show ?thesis
    by (simp add: get_make_record_row js_or_def)
qed

lemma expected_data:
  "js_join '','' (map (\<lambda>col. join_elem (js_or (get (make_record rid u res rowdata) col) (JString [])))
      expectedColumns) = expected_values rowdata"
  unfolding expected_values_def
  by (rule arg_cong [where f = "js_join '',''"]) (simp add: expected_cell)

lemma row_line_B_expected:
  "\<exists>pre ext. row_line_B ec (make_record rid u res rowdata) =
     pre @ '','' @ expected_values rowdata @ '','' @ ext"
proof -
  define ob where "ob = make_record rid u res rowdata"
  have "row_line_B ec ob =
      (js_toString (js_or (get ob ''Record ID'') (get ob ''recordId'')) @ '','' @
       js_toString (js_or (get ob ''Website URL'') (get ob ''url'')) @ '','' @
       js_toString (get ob ''isShopify'') @ '','' @ js_toString (get ob ''isActive'') @ '','' @
       js_toString (get ob ''isPasswordProtected'')) @ '','' @ expected_values rowdata @ '','' @
      js_join '','' (map (\<lambda>col. join_elem (js_or (get ob (key_of col)) (JString []))) ec)"
    by (simp add: row_line_B_def Let_def ob_def expected_data)
  then show ?thesis
    unfolding ob_def by blast
qed

lemma row_line_B_plain:
  assumes "\<forall>k\<in>set record_keys. map_of rowdata k = None"
  shows "\<exists>ext. row_line_B ec
      (make_record (map_of rowdata ''Record ID'') (map_of rowdata ''Website URL'') res rowdata) =
     show_opt (map_of rowdata ''Record ID'') @ '','' @ show_opt (map_of rowdata ''Website URL'') @
     '','' @ show_bool (isShopify res) @ '','' @ show_bool (isActive res) @ '','' @
     show_bool (isPasswordProtected res) @ '','' @ expected_values rowdata @ '','' @ ext"
proof -
  define ob where
    "ob = make_record (map_of rowdata ''Record ID'') (map_of rowdata ''Website URL'') res rowdata"
  have absent: "map_of rowdata ''recordId'' = None" "map_of rowdata ''url'' = None"
    "map_of rowdata ''isShopify'' = None" "map_of rowdata ''isActive'' = None"
    "map_of rowdata ''isPasswordProtected'' = None"
    using assms by (simp_all add: record_keys_def result_keys_def)
  have flags: "get ob ''isShopify'' = JBool (isShopify res)" "get ob ''isActive'' = JBool (isActive res)"
    "get ob ''isPasswordProtected'' = JBool (isPasswordProtected res)"
    "get ob ''recordId'' = of_opt (map_of rowdata ''Record ID'')"
    "get ob ''url'' = of_opt (map_of rowdata ''Website URL'')"
    using absent by (simp_all add: ob_def get_make_record_absent)
  have own: "get ob k = of_opt (map_of rowdata k)" if "k \<notin> set record_keys" for k
    using that
    by (cases "map_of rowdata k")
      (simp_all add: ob_def get_make_record_absent get_make_record_row record_keys_def result_keys_def)
  have rid: "js_toString (js_or (get ob ''Record ID'') (get ob ''recordId'')) =
      show_opt (map_of rowdata ''Record ID'')"
    by (cases "map_of rowdata ''Record ID''")
      (simp_all add: own flags js_or_def record_keys_def result_keys_def)
  have url: "js_toString (js_or (get ob ''Website URL'') (get ob ''url'')) =
      show_opt (map_of rowdata ''Website URL'')"
    by (cases "map_of rowdata ''Website URL''")
      (simp_all add: own flags js_or_def record_keys_def result_keys_def)
  have "row_line_B ec ob =
      show_opt (map_of rowdata ''Record ID'') @ '','' @ show_opt (map_of rowdata ''Website URL'') @
      '','' @ show_bool (isShopify res) @ '','' @ show_bool (isActive res) @ '','' @
      show_bool (isPasswordProtected res) @ '','' @ expected_values rowdata @ '','' @
      js_join '','' (map (\<lambda>col. join_elem (js_or (get ob (key_of col)) (JString []))) ec)"
    using rid url flags(1-3) expected_data [of "map_of rowdata ''Record ID''" "map_of rowdata ''Website URL''" res rowdata]
    by (simp add: row_line_B_def Let_def ob_def [symmetric])
  then show ?thesis
    unfolding ob_def by blast
qed

text \<open>
  A row without the property \<^verbatim>\<open>Website URL\<close> makes \<^verbatim>\<open>processURL\<close> throw,
  and with it the whole run: no report is written.
\<close>

lemma processCSV_B_undefined_url:
  assumes "rowdata \<in> set rows" and "map_of rowdata ''Website URL'' = None"
  shows "\<exists>e. processCSV_B nets ch rows = Inl e"
proof -
  let ?ps = "map (\<lambda>(i, rowdata). classify_row (nets i) ch rowdata) (zip [0..<length rows] rows)"
  obtain i where i: "i < length rows" and r: "rows ! i = rowdata"
    using assms(1) by (auto simp: in_set_conv_nth)
  have c: "?ps ! i = Inl TypeError"
    using i r assms(2) by (simp add: classify_row_def processURL_undefined)
  have "\<And>obs. promise_all ?ps \<noteq> Inr obs"
  proof
    fix obs
    assume "promise_all ?ps = Inr obs"
    then have ps: "?ps = map Inr obs"
      by (rule promise_all_Inr)
    have "length ?ps = length (map Inr obs :: (js_error + obj) list)"
      using ps by (rule arg_cong)
    then have "i < length obs"
      using i by simp
    then have "?ps ! i = Inr (obs ! i)"
      by (simp only: ps) simp
    with c show False by simp
  qed
  then show ?thesis
    by (cases "promise_all ?ps") (auto simp: processCSV_B_def finalResults_B_def)
qed

subsection \<open>Evaluation on the example inputs\<close>

lemma ex_processCSV_A:
  "processCSV_A nets_ok ch_stub rows_clients =
     Inr \<lparr>header = ''ClientId,URL,isShopify,isActive,isPasswordProtected'',
          row_lines = [''7,foo.myshopify.com,true,true,false'', ''8,shop.example,false,false,false''],
          extra_rows = [],
          run_metrics = \<lparr>totalStores = 2, shopifyStores = 1, activeStores = 1,
            passwordProtectedStores = 0, inactiveStores = 1\<rparr>\<rparr>"
  by code_simp

lemma ex_processCSV_B:
  "processCSV_B nets_down ch_stub rows_extra =
     Inr \<lparr>header = ''Record ID,Website URL,isShopify,isActive,isPasswordProtected,Create Date,Number of Associated Contacts,City,Country/Region,Last Activity Date,Company owner,Industry'',
          row_lines = [''1,a.example,false,false,false,,,,,,,Retail'', ''2,,false,false,false,,,,,,,Toys''],
          extra_rows = [''2,,Toys,call back''],
          run_metrics = \<lparr>totalStores = 2, shopifyStores = 0, activeStores = 0,
            passwordProtectedStores = 0, inactiveStores = 2\<rparr>\<rparr>"
  by code_simp

lemma ex_rows_extra_keys:
  "\<forall>rowdata\<in>set rows_extra. \<forall>k\<in>set record_keys. map_of rowdata k = None"
  by (simp add: rows_extra_def record_keys_def result_keys_def)

subsection \<open>The metrics\<close>

text \<open>
  In the second script the row is spread over the result. A row with a column
  \<^verbatim>\<open>isActive\<close> whose value is a non-empty string is counted as active, whatever
  the classification found: here one store that is not Shopify and is counted active.
\<close>

theorem metrics_counterexample:
  "map_sum id run_metrics (processCSV_B nets_down ch_stub rows_active) =
     Inr \<lparr>totalStores = 1, shopifyStores = 0, activeStores = 1, passwordProtectedStores = 0,
          inactiveStores = 0\<rparr>"
  by code_simp

text \<open>
  Claim C9, as the code has it. In both scripts \<open>inactiveStores\<close> is
  \<open>totalStores - activeStores\<close> over all collected records, so the two add up to
  \<open>totalStores\<close>, the rows that were never checked for liveness counting as
  inactive. In checkStores.js
  \<open>shopifyStores \<ge> activeStores \<ge> passwordProtectedStores\<close> on every input. In the
  second script the same holds when no input row has a column named
  \<^verbatim>\<open>isShopify\<close>, \<^verbatim>\<open>isActive\<close> or \<^verbatim>\<open>isPasswordProtected\<close>.
\<close>

theorem metrics_invariants:
  "(\<forall>rep. processCSV_A nets ch rows = Inr rep \<longrightarrow>
      inactiveStores (run_metrics rep) =
        int (totalStores (run_metrics rep)) - int (activeStores (run_metrics rep)) \<and>
      int (activeStores (run_metrics rep)) + inactiveStores (run_metrics rep) =
        int (totalStores (run_metrics rep)) \<and>
      activeStores (run_metrics rep) \<le> shopifyStores (run_metrics rep) \<and>
      passwordProtectedStores (run_metrics rep) \<le> activeStores (run_metrics rep)) \<and>
   (\<forall>rep. processCSV_B nets ch rows = Inr rep \<longrightarrow>
      inactiveStores (run_metrics rep) =
        int (totalStores (run_metrics rep)) - int (activeStores (run_metrics rep)) \<and>
      int (activeStores (run_metrics rep)) + inactiveStores (run_metrics rep) =
        int (totalStores (run_metrics rep)) \<and>
      ((\<forall>rowdata\<in>set rows. \<forall>k\<in>set result_keys. map_of rowdata k = None) \<longrightarrow>
         activeStores (run_metrics rep) \<le> shopifyStores (run_metrics rep) \<and>
         passwordProtectedStores (run_metrics rep) \<le> activeStores (run_metrics rep)))"
proof (intro conjI allI impI)
  fix rep
  assume a: "processCSV_A nets ch rows = Inr rep"
  then obtain rs where rb: "run_batch nets ch 0 (map task_of_row rows) = Inr rs"
    and rep: "rep = writeCSV_A rs"
    by (auto simp: processCSV_A_eq split: sum.splits)
  show "inactiveStores (run_metrics rep) =
      int (totalStores (run_metrics rep)) - int (activeStores (run_metrics rep))"
    by (simp add: rep writeCSV_A_def metrics_A_def)
  show "int (activeStores (run_metrics rep)) + inactiveStores (run_metrics rep) =
      int (totalStores (run_metrics rep))"
    by (simp add: rep writeCSV_A_def metrics_sum_A)
  have "activeStores (metrics_A rs) \<le> shopifyStores (metrics_A rs) \<and>
      passwordProtectedStores (metrics_A rs) \<le> activeStores (metrics_A rs)"
    by (rule metrics_A_chain) (rule run_batch_chain [OF rb])
  then show "activeStores (run_metrics rep) \<le> shopifyStores (run_metrics rep)"
    and "passwordProtectedStores (run_metrics rep) \<le> activeStores (run_metrics rep)"
    by (simp_all add: rep writeCSV_A_def)
next
  fix rep
  assume b: "processCSV_B nets ch rows = Inr rep"
  then obtain obs where pa: "finalResults_B nets ch rows = Inr obs"
    and rep: "rep = writeCSV_B obs (collect_extraColumns rows) rows"
    by (auto simp: processCSV_B_def split: sum.splits)
  show "inactiveStores (run_metrics rep) =
      int (totalStores (run_metrics rep)) - int (activeStores (run_metrics rep))"
    by (simp add: rep writeCSV_B_def metrics_B_def)
  show "int (activeStores (run_metrics rep)) + inactiveStores (run_metrics rep) =
      int (totalStores (run_metrics rep))"
    by (simp add: rep writeCSV_B_def metrics_sum_B)
  {
    assume nk: "\<forall>rowdata\<in>set rows. \<forall>k\<in>set result_keys. map_of rowdata k = None"
    have "activeStores (metrics_B obs) \<le> shopifyStores (metrics_B obs) \<and>
        passwordProtectedStores (metrics_B obs) \<le> activeStores (metrics_B obs)"
      by (rule metrics_B_chain) (rule results_B_chain [OF pa nk])
    then show "activeStores (run_metrics rep) \<le> shopifyStores (run_metrics rep)"
      and "passwordProtectedStores (run_metrics rep) \<le> activeStores (run_metrics rep)"
      by (simp_all add: rep writeCSV_B_def)
  }
qed

theorem metrics_invariants_witness:
  "map_sum id run_metrics (processCSV_A nets_ok ch_stub rows_clients) =
     Inr \<lparr>totalStores = 2, shopifyStores = 1, activeStores = 1, passwordProtectedStores = 0,
          inactiveStores = 1\<rparr> \<and>
   list_all (\<lambda>rowdata. list_all (\<lambda>k. map_of rowdata k = None) result_keys) rows_extra \<and>
   map_sum id run_metrics (processCSV_B nets_down ch_stub rows_extra) =
     Inr \<lparr>totalStores = 2, shopifyStores = 0, activeStores = 0, passwordProtectedStores = 0,
          inactiveStores = 2\<rparr>"
proof -
  have k: "\<forall>rowdata\<in>set rows_extra. \<forall>k\<in>set result_keys. map_of rowdata k = None"
    using ex_rows_extra_keys by (simp add: record_keys_def)
  show ?thesis
    using metrics_invariants [of nets_ok ch_stub rows_clients]
      metrics_invariants [of nets_down ch_stub rows_extra] k
    by (simp add: ex_processCSV_A ex_processCSV_B list_all_iff)
qed

subsection \<open>The rows of the report\<close>

text \<open>
  What the report of the second script does hold when every row has the property
  \<^verbatim>\<open>Website URL\<close>: the rows whose URL or identifier is missing or empty are
  extra rows, written as their values joined by commas; every row, those rows
  included, is classified and has one line; the line carries the row's own values of
  the six expected columns. What follows the expected columns is left open here.
\<close>

lemma report_rows:
  assumes "\<forall>rowdata\<in>set rows. map_of rowdata ''Website URL'' \<noteq> None"
  shows "\<exists>rep. processCSV_B nets ch rows = Inr rep \<and>
    extra_rows rep = map (\<lambda>rowdata. js_join '','' (map snd rowdata)) (filter is_extra_row rows) \<and>
    length (row_lines rep) = length rows \<and>
    (\<forall>i<length rows. \<exists>pre ext.
       row_lines rep ! i = pre @ '','' @ expected_values (rows ! i) @ '','' @ ext) \<and>
    (\<forall>i<length rows. (\<forall>k\<in>set record_keys. map_of (rows ! i) k = None) \<longrightarrow>
       (\<exists>res st' ext.
          processURL (nets i) ch (map_of (rows ! i) ''Website URL'') io0 = (Inr res, st') \<and>
          row_lines rep ! i =
            show_opt (map_of (rows ! i) ''Record ID'') @ '','' @
            show_opt (map_of (rows ! i) ''Website URL'') @ '','' @
            show_bool (isShopify res) @ '','' @ show_bool (isActive res) @ '','' @
            show_bool (isPasswordProtected res) @ '','' @ expected_values (rows ! i) @ '','' @ ext))"
proof -
  let ?ps = "map (\<lambda>(i, rowdata). classify_row (nets i) ch rowdata) (zip [0..<length rows] rows)"
  have "\<exists>v. p = Inr v" if "p \<in> set ?ps" for p
  proof -
    from that obtain i rowdata where m: "(i, rowdata) \<in> set (zip [0..<length rows] rows)"
      and p: "p = classify_row (nets i) ch rowdata"
      by auto
    have "rowdata \<in> set rows"
      using m by (rule zip_upt_in_set)
    then have "map_of rowdata ''Website URL'' \<noteq> None"
      using assms by blast
    then show ?thesis
      using classify_row_defined [of rowdata "nets i" ch] p by blast
  qed
  then obtain obs where pa: "promise_all ?ps = Inr obs"
    using promise_all_defined [of ?ps] by blast
  then have ps: "?ps = map Inr obs"
    by (rule promise_all_Inr)
  have "length ?ps = length (map Inr obs :: (js_error + obj) list)"
    using ps by (rule arg_cong)
  then have len: "length obs = length rows"
    by simp
  define rep where "rep = writeCSV_B obs (collect_extraColumns rows) rows"
  have run: "processCSV_B nets ch rows = Inr rep"
    by (simp add: processCSV_B_def finalResults_B_def pa rep_def)
  have extra: "extra_rows rep =
      map (\<lambda>rowdata. js_join '','' (map snd rowdata)) (filter is_extra_row rows)"
    by (simp add: rep_def writeCSV_B_def)
  have lines: "length (row_lines rep) = length rows"
    by (simp add: rep_def writeCSV_B_def len)
  have ob: "\<exists>res st'.
      processURL (nets i) ch (map_of (rows ! i) ''Website URL'') io0 = (Inr res, st') \<and>
      obs ! i = make_record (map_of (rows ! i) ''Record ID'') (map_of (rows ! i) ''Website URL'')
        res (rows ! i)"
    if i: "i < length rows" for i
  proof -
    have "?ps ! i = classify_row (nets i) ch (rows ! i)"
      using i by (rule nth_classify_rows)
    moreover have "?ps ! i = Inr (obs ! i)"
      using i len by (simp only: ps) simp
    ultimately have c: "classify_row (nets i) ch (rows ! i) = Inr (obs ! i)"
      by simp
    have "map_of (rows ! i) ''Website URL'' \<noteq> None"
      using assms i by simp
    from classify_row_defined [OF this, of "nets i" ch] c show ?thesis
      by auto
  qed
  have line: "row_lines rep ! i = row_line_B (collect_extraColumns rows) (obs ! i)"
    if "i < length rows" for i
    using that len by (simp add: rep_def writeCSV_B_def)
  have expected: "\<forall>i<length rows. \<exists>pre ext.
      row_lines rep ! i = pre @ '','' @ expected_values (rows ! i) @ '','' @ ext"
  proof (intro allI impI)
    fix i
    assume i: "i < length rows"
    from ob [OF i] obtain res st' where
      "obs ! i = make_record (map_of (rows ! i) ''Record ID'') (map_of (rows ! i) ''Website URL'')
        res (rows ! i)"
      by blast
    then show "\<exists>pre ext. row_lines rep ! i = pre @ '','' @ expected_values (rows ! i) @ '','' @ ext"
      using row_line_B_expected [of "collect_extraColumns rows" "map_of (rows ! i) ''Record ID''"
          "map_of (rows ! i) ''Website URL''" res "rows ! i"]
      by (simp add: line [OF i])
  qed
  have plain: "\<forall>i<length rows. (\<forall>k\<in>set record_keys. map_of (rows ! i) k = None) \<longrightarrow>
      (\<exists>res st' ext.
         processURL (nets i) ch (map_of (rows ! i) ''Website URL'') io0 = (Inr res, st') \<and>
         row_lines rep ! i =
           show_opt (map_of (rows ! i) ''Record ID'') @ '','' @
           show_opt (map_of (rows ! i) ''Website URL'') @ '','' @
           show_bool (isShopify res) @ '','' @ show_bool (isActive res) @ '','' @
           show_bool (isPasswordProtected res) @ '','' @ expected_values (rows ! i) @ '','' @ ext)"
  proof (intro allI impI)
    fix i
    assume i: "i < length rows"
      and keys: "\<forall>k\<in>set record_keys. map_of (rows ! i) k = None"
    from ob [OF i] obtain res st' where
      p: "processURL (nets i) ch (map_of (rows ! i) ''Website URL'') io0 = (Inr res, st')"
      and o: "obs ! i = make_record (map_of (rows ! i) ''Record ID'')
        (map_of (rows ! i) ''Website URL'') res (rows ! i)"
      by blast
    from row_line_B_plain [OF keys, of "collect_extraColumns rows" res] obtain ext where
      "row_line_B (collect_extraColumns rows) (obs ! i) =
        show_opt (map_of (rows ! i) ''Record ID'') @ '','' @
        show_opt (map_of (rows ! i) ''Website URL'') @ '','' @
        show_bool (isShopify res) @ '','' @ show_bool (isActive res) @ '','' @
        show_bool (isPasswordProtected res) @ '','' @ expected_values (rows ! i) @ '','' @ ext"
      unfolding o by blast
    then show "\<exists>res st' ext.
        processURL (nets i) ch (map_of (rows ! i) ''Website URL'') io0 = (Inr res, st') \<and>
        row_lines rep ! i =
          show_opt (map_of (rows ! i) ''Record ID'') @ '','' @
          show_opt (map_of (rows ! i) ''Website URL'') @ '','' @
          show_bool (isShopify res) @ '','' @ show_bool (isActive res) @ '','' @
          show_bool (isPasswordProtected res) @ '','' @ expected_values (rows ! i) @ '','' @ ext"
      using p line [OF i] by auto
  qed
  show ?thesis
    using run extra lines expected plain by blast
qed

text \<open>
  Claim C7: the code on two inputs. The claim holds of neither.

  First input: two rows with the columns \<^verbatim>\<open>Industry\<close> and \<^verbatim>\<open>Notes\<close>, the
  second with an empty URL. \<^verbatim>\<open>extraColumns.add(...keys)\<close> keeps the first extra
  key only, so \<^verbatim>\<open>Industry\<close> is the one extra column of the header and the
  values \<^verbatim>\<open>vip\<close> and \<^verbatim>\<open>call back\<close> of \<^verbatim>\<open>Notes\<close> are in no classified
  line. The second row, whose URL is missing, is classified like the first, and is an
  extra row as well.

  Second input: a second row that is short and has no property \<^verbatim>\<open>Website URL\<close>
  at all, an extra row for \<^verbatim>\<open>writeCSV\<close>. \<^verbatim>\<open>processCSV\<close> hands it to
  \<^verbatim>\<open>processURL\<close>, which throws a \<^verbatim>\<open>TypeError\<close>: the run ends without a
  report, and the data of neither row reaches the output.
\<close>

theorem passthrough_failing_inputs:
  "map_sum id header (processCSV_B nets_down ch_stub rows_extra) =
     Inr ''Record ID,Website URL,isShopify,isActive,isPasswordProtected,Create Date,Number of Associated Contacts,City,Country/Region,Last Activity Date,Company owner,Industry'' \<and>
   map_sum id row_lines (processCSV_B nets_down ch_stub rows_extra) =
     Inr [''1,a.example,false,false,false,,,,,,,Retail'', ''2,,false,false,false,,,,,,,Toys''] \<and>
   map_sum id extra_rows (processCSV_B nets_down ch_stub rows_extra) = Inr [''2,,Toys,call back''] \<and>
   map_of (rows_short ! 1) ''Website URL'' = None \<and>
   processCSV_B nets_down ch_stub rows_short = Inl TypeError"
proof -
  have "map_of (rows_short ! 1) ''Website URL'' = None \<and>
      processCSV_B nets_down ch_stub rows_short = Inl TypeError"
    by code_simp
  then show ?thesis
    by (simp add: ex_processCSV_B)
qed

subsection \<open>Invariants of the limiter\<close>






subsection \<open>One record per row, and the classifications in flight\<close>







end
